theory Spec2Isabelle
  imports Complex_Main
begin

section \<open>Data model of UINavAsyncWidgetManager\<close>

text \<open>
  The development embeds \<^verbatim>\<open>UUINavAsyncWidgetManager\<close>
  (\<^verbatim>\<open>Source/UINavigation/Private/UINavAsyncWidgetManager.cpp\<close> and its header).
  Engine types are kept abstract:
  \<^item> an \<^verbatim>\<open>FGuid\<close> is a natural number (the 128-bit value); \<^verbatim>\<open>FGuid()\<close> is \<open>0\<close> and
    \<^verbatim>\<open>IsValid()\<close> is "non-zero". \<^verbatim>\<open>FGuid::ToString()\<close> prints 32 hexadecimal digits of
    fixed width, so comparing the strings is comparing the numbers;
  \<^item> a \<^verbatim>\<open>TSoftClassPtr\<close> is its asset path, the empty path being the null pointer;
  \<^item> a loaded class (\<^verbatim>\<open>UClass*\<close>, \<^verbatim>\<open>TSubclassOf\<close>) is a number, a null class is \<open>None\<close>;
  \<^item> \<^verbatim>\<open>int32\<close> counters are unbounded integers (no counter comes near \<open>2^31\<close>);
  \<^item> the clock \<^verbatim>\<open>FPlatformTime::Seconds()\<close> (a \<^verbatim>\<open>double\<close>) is a rational. The request
    constructor assigns it to the \<^verbatim>\<open>float\<close> field \<^verbatim>\<open>RequestTime\<close>: the stored value is the
    clock narrowed to single precision (\<open>ToFloat\<close> below), again a rational, so two requests
    submitted shortly after one another may carry the same stored time;
  \<^item> \<^verbatim>\<open>TSet<FGuid>\<close> is a list without duplicates, in the order of recording; the two
    handle maps are the sets of their keys.

  The manager runs on one thread. The loader delivers a completion as a later call of
  \<^verbatim>\<open>OnWidgetClassLoaded\<close>, and the delegates bound by callers do not call back into the
  manager.
\<close>

type_synonym guid = nat
type_synonym softptr = string
type_synonym cls = nat

datatype widget = Widget (GetClass: cls) (WidgetSerial: nat)

text \<open>
  A dynamic delegate is unbound, bound by the caller (to an opaque handler that does not
  call back into the manager), or bound to one of the two lambdas of
  \<^verbatim>\<open>PreloadWidgetClass\<close>, which capture the soft class pointer.
\<close>

datatype completed_delegate = UnboundCompleted | UserCompleted nat | PreloadCompleted softptr
datatype failed_delegate = UnboundFailed | UserFailed nat | PreloadFailed softptr

record request =
  RequestId :: guid
  WidgetClass :: softptr
  bRemoveParent :: bool
  bDestroyParent :: bool
  ZOrder :: int
  OnLoadCompleted :: completed_delegate
  OnLoadFailed :: failed_delegate
  RequestTime :: rat
  bCancelled :: bool
  Priority :: int

text \<open>
  Calls that leave the manager (delegates, the widget factory, the streamable manager, the
  timer manager) are recorded, in order, in the ghost field \<open>Effects\<close>. \<open>LoadStarted\<close> is the
  log line written at the head of \<^verbatim>\<open>StartLoadingWidget\<close>; it marks the admission of a request.
\<close>

datatype effect =
    LoadStarted guid
  | LoadCompletedExecuted guid completed_delegate widget
  | LoadFailedExecuted guid failed_delegate string
  | SubmitFailedExecuted failed_delegate string
  | GoToWidgetCalled cls bool bool int
  | RemoveFromParentCalled widget
  | AsyncLoadRequested guid softptr
  | HandleCancelled guid
  | TimerSet guid
  | TimerCleared guid
  | StreamableFlushed

record manager =
  ActiveRequests :: "request list"
  PendingRequests :: "request list"
  CancelledRequestIds :: "guid list"
  ActiveHandles :: "guid set"
  TimeoutHandles :: "guid set"
  MaxConcurrentLoads :: int
  LoadTimeoutSeconds :: rat
  TotalRequestCount :: int
  CompletedRequestCount :: int
  FailedRequestCount :: int
  CancelledRequestCount :: int
  WidgetClassCache :: "softptr \<rightharpoonup> cls"
  Effects :: "effect list"

text \<open>
  What the engine answers during one call of the manager: whether the world context is
  alive, whether the first player controller carries a \<^verbatim>\<open>UUINavPCComponent\<close>, what
  \<^verbatim>\<open>GoToWidget\<close> returns, whether \<^verbatim>\<open>RequestAsyncLoad\<close> returns a valid handle, what a soft
  pointer currently resolves to (\<^verbatim>\<open>TSoftClassPtr::Get\<close>), and the values of
  \<^verbatim>\<open>FGuid::NewGuid()\<close> and \<^verbatim>\<open>FPlatformTime::Seconds()\<close> read by the request constructor.
\<close>

record env =
  WorldContextValid :: bool
  HasUINavPC :: bool
  GoToWidget :: "cls \<Rightarrow> bool \<Rightarrow> bool \<Rightarrow> int \<Rightarrow> widget option"
  RequestAsyncLoadValid :: "softptr \<Rightarrow> bool"
  Resolve :: "softptr \<Rightarrow> cls option"
  NewGuid :: guid
  PlatformSeconds :: rat

text \<open>
  The conversion of a \<^verbatim>\<open>double\<close> to \<^verbatim>\<open>float\<close> (IEEE 754 binary32, round to nearest, ties to
  even). A float has 24 significant bits: in the binade \<open>2^k \<le> a < 2^(k+1)\<close> the floats are the
  multiples of \<open>2^(k-23)\<close>, and below \<open>2^(-126)\<close> (subnormal range) the multiples of
  \<open>2^(-149)\<close>. A magnitude that rounds to \<open>2^128\<close> or more becomes infinity, for which the
  value \<open>2^128\<close> stands: it is above every finite float, which is all a comparison needs.
  The clock is never a NaN.
\<close>

function BitLength :: "int \<Rightarrow> int" where
  "BitLength n = (if n \<le> 0 then 0 else BitLength (n div 2) + 1)"
  by pat_completeness auto
termination by (relation "measure nat") auto

declare BitLength.simps [simp del]

text \<open>The exponent \<open>k\<close> of the binade of a positive \<open>a\<close>: \<open>2^k \<le> a < 2^(k+1)\<close>.\<close>

definition BinaryExponent :: "rat \<Rightarrow> int" where
  "BinaryExponent a =
     (if 1 \<le> a then BitLength \<lfloor>a\<rfloor> - 1 else - BitLength (\<lceil>1 / a\<rceil> - 1))"

definition RoundHalfEven :: "rat \<Rightarrow> int" where
  "RoundHalfEven x =
     (let n = \<lfloor>x\<rfloor>; d = x - of_int n in
      if d < 1 / 2 then n else if 1 / 2 < d then n + 1 else if even n then n else n + 1)"

definition FloatSpacing :: "int \<Rightarrow> rat" where
  "FloatSpacing k = (if 23 \<le> k then 2 ^ nat (k - 23) else 1 / 2 ^ nat (23 - k))"

definition ToFloat :: "rat \<Rightarrow> rat" where
  "ToFloat x =
     (if x = 0 then 0
      else let a = \<bar>x\<bar>;
               q = FloatSpacing (max (BinaryExponent a) (- 126));
               r = min (of_int (RoundHalfEven (a / q)) * q) (2 ^ 128)
           in if x < 0 then - r else r)"

definition GuidIsValid :: "guid \<Rightarrow> bool" where
  "GuidIsValid g = (g \<noteq> 0)"

definition IsNull :: "softptr \<Rightarrow> bool" where
  "IsNull p = (p = [])"

text \<open>
  \<^verbatim>\<open>TSoftClassPtr::Get\<close> (a null pointer resolves to nothing) and \<^verbatim>\<open>TSoftClassPtr::IsValid\<close>
  (the pointer currently resolves to a live class; it is false for a path that is not
  loaded yet).
\<close>

definition SoftGet :: "env \<Rightarrow> softptr \<Rightarrow> cls option" where
  "SoftGet e p = (if IsNull p then None else Resolve e p)"

definition IsValid :: "env \<Rightarrow> softptr \<Rightarrow> bool" where
  "IsValid e p = (SoftGet e p \<noteq> None)"

text \<open>The constructor of the manager.\<close>

definition NewManager :: manager where
  "NewManager = \<lparr> ActiveRequests = [], PendingRequests = [], CancelledRequestIds = [],
     ActiveHandles = {}, TimeoutHandles = {}, MaxConcurrentLoads = 3,
     LoadTimeoutSeconds = 30, TotalRequestCount = 0, CompletedRequestCount = 0,
     FailedRequestCount = 0, CancelledRequestCount = 0, WidgetClassCache = Map.empty,
     Effects = [] \<rparr>"

subsection \<open>Containers\<close>

text \<open>\<^verbatim>\<open>TSet::Add\<close>: an element already present is not added again.\<close>

definition SetAdd :: "guid \<Rightarrow> guid list \<Rightarrow> guid list" where
  "SetAdd g gs = (if g \<in> set gs then gs else gs @ [g])"

text \<open>
  The loop \<^verbatim>\<open>for i: if (ActiveRequests[i].RequestId == Id) { RemoveAt(i); break; }\<close>.
\<close>

fun RemoveFirstById :: "guid \<Rightarrow> request list \<Rightarrow> request list" where
  "RemoveFirstById g [] = []"
| "RemoveFirstById g (r # rs) = (if RequestId r = g then rs else r # RemoveFirstById g rs)"

text \<open>\<^verbatim>\<open>Requests[i].bCancelled = true\<close> at the index such a loop stops at.\<close>

fun MarkCancelledById :: "guid \<Rightarrow> request list \<Rightarrow> request list" where
  "MarkCancelledById g [] = []"
| "MarkCancelledById g (r # rs) =
     (if RequestId r = g then r\<lparr>bCancelled := True\<rparr> # rs else r # MarkCancelledById g rs)"

text \<open>The first entry with the given id, as the search loops find it.\<close>

fun FindById :: "guid \<Rightarrow> request list \<Rightarrow> request option" where
  "FindById g [] = None"
| "FindById g (r # rs) = (if RequestId r = g then Some r else FindById g rs)"

text \<open>\<^verbatim>\<open>FAsyncWidgetLoadRequest::operator<\<close>.\<close>

definition request_less :: "request \<Rightarrow> request \<Rightarrow> bool" where
  "request_less a b =
     (if Priority a \<noteq> Priority b then Priority a > Priority b
      else RequestTime a < RequestTime b)"

text \<open>
  \<^verbatim>\<open>TArray::Sort()\<close> orders by \<^verbatim>\<open>operator<\<close> and is not stable: it promises nothing about
  requests that compare equal. It is modelled by insertion sort. The general results below
  use only that the result is ordered and holds the same requests. Requests that compare
  equal come out in the order the insertions leave them, which is one of the orders the
  engine's sort may produce; the sample run \<open>sT\<close> shows it.
\<close>

fun SortInsert :: "request \<Rightarrow> request list \<Rightarrow> request list" where
  "SortInsert x [] = [x]"
| "SortInsert x (y # ys) = (if request_less x y then x # y # ys else y # SortInsert x ys)"

definition Sort :: "request list \<Rightarrow> request list" where
  "Sort xs = foldr SortInsert xs []"

subsection \<open>Cache and widget factory\<close>

definition IsWidgetClassCached :: "env \<Rightarrow> manager \<Rightarrow> softptr \<Rightarrow> bool" where
  "IsWidgetClassCached e s p =
     (if \<not> IsValid e p then False else WidgetClassCache s p \<noteq> None)"

definition AddToWidgetClassCache :: "env \<Rightarrow> softptr \<Rightarrow> cls option \<Rightarrow> manager \<Rightarrow> manager" where
  "AddToWidgetClassCache e p c s =
     (case c of
        None \<Rightarrow> s
      | Some k \<Rightarrow> if \<not> IsValid e p then s
                  else s\<lparr>WidgetClassCache := (WidgetClassCache s)(p \<mapsto> k)\<rparr>)"

definition GetFromWidgetClassCache :: "manager \<Rightarrow> softptr \<Rightarrow> cls option" where
  "GetFromWidgetClassCache s p = WidgetClassCache s p"

text \<open>
  \<^verbatim>\<open>CreateAndSetupWidget\<close>; its callers pass a non-null class, so the null check at its head
  is not taken.
\<close>

definition CreateAndSetupWidget :: "env \<Rightarrow> cls \<Rightarrow> request \<Rightarrow> manager \<Rightarrow> widget option \<times> manager" where
  "CreateAndSetupWidget e c r s =
     (if \<not> (WorldContextValid e \<and> HasUINavPC e) then (None, s)
      else (GoToWidget e c (bRemoveParent r) (bDestroyParent r) (ZOrder r),
            s\<lparr>Effects := Effects s @ [GoToWidgetCalled c (bRemoveParent r) (bDestroyParent r) (ZOrder r)]\<rparr>))"

text \<open>
  \<^verbatim>\<open>if (D.IsBound()) D.ExecuteIfBound(...)\<close> for the two delegates of a request. The
  completion lambda of a preload adds the widget's class to the cache and removes the
  widget from its parent; the failure lambda of a preload only logs.
\<close>

definition ExecuteLoadCompleted :: "env \<Rightarrow> request \<Rightarrow> widget \<Rightarrow> manager \<Rightarrow> manager" where
  "ExecuteLoadCompleted e r w s =
     (case OnLoadCompleted r of
        UnboundCompleted \<Rightarrow> s
      | UserCompleted h \<Rightarrow>
          s\<lparr>Effects := Effects s @ [LoadCompletedExecuted (RequestId r) (UserCompleted h) w]\<rparr>
      | PreloadCompleted p \<Rightarrow>
          (let s1 = s\<lparr>Effects := Effects s @ [LoadCompletedExecuted (RequestId r) (PreloadCompleted p) w]\<rparr>;
               s2 = AddToWidgetClassCache e p (Some (GetClass w)) s1
           in s2\<lparr>Effects := Effects s2 @ [RemoveFromParentCalled w]\<rparr>))"

definition ExecuteLoadFailed :: "request \<Rightarrow> string \<Rightarrow> manager \<Rightarrow> manager" where
  "ExecuteLoadFailed r msg s =
     (case OnLoadFailed r of
        UnboundFailed \<Rightarrow> s
      | d \<Rightarrow> s\<lparr>Effects := Effects s @ [LoadFailedExecuted (RequestId r) d msg]\<rparr>)"

subsection \<open>Admission: ProcessNextRequest and StartLoadingWidget\<close>

text \<open>
  \<^verbatim>\<open>ProcessNextRequest\<close> and \<^verbatim>\<open>StartLoadingWidget\<close> call each other: a request that is found in
  the cache, or whose streamable handle cannot be created, ends inside
  \<^verbatim>\<open>StartLoadingWidget\<close>, which then admits the next pending request. The loader's
  completion is delivered later, as a call of \<^verbatim>\<open>OnWidgetClassLoaded\<close>.
\<close>

function ProcessNextRequest :: "env \<Rightarrow> manager \<Rightarrow> manager"
  and StartLoadingWidget :: "env \<Rightarrow> request \<Rightarrow> manager \<Rightarrow> manager" where
  "ProcessNextRequest e s =
     (case PendingRequests s of
        [] \<Rightarrow> s
      | NextRequest # rest \<Rightarrow>
          if int (length (ActiveRequests s)) < MaxConcurrentLoads s then
            if bCancelled NextRequest \<or> RequestId NextRequest \<in> set (CancelledRequestIds s)
            then ProcessNextRequest e (s\<lparr>PendingRequests := rest\<rparr>)
            else StartLoadingWidget e NextRequest
                   (s\<lparr>PendingRequests := rest, ActiveRequests := ActiveRequests s @ [NextRequest]\<rparr>)
          else s)"
| "StartLoadingWidget e Request s0 =
     (let s = s0\<lparr>Effects := Effects s0 @ [LoadStarted (RequestId Request)]\<rparr>
      in case GetFromWidgetClassCache s (WidgetClass Request) of
        Some CachedClass \<Rightarrow>
          (case CreateAndSetupWidget e CachedClass Request s of
             (Some CreatedWidget, s1) \<Rightarrow>
               (let s2 = ExecuteLoadCompleted e Request CreatedWidget s1;
                    s3 = s2\<lparr>CompletedRequestCount := CompletedRequestCount s2 + 1\<rparr>
                in ProcessNextRequest e
                     (s3\<lparr>ActiveRequests := RemoveFirstById (RequestId Request) (ActiveRequests s3)\<rparr>))
           | (None, s1) \<Rightarrow>
               (let s2 = ExecuteLoadFailed Request ''Failed to create widget from cached class'' s1;
                    s3 = s2\<lparr>FailedRequestCount := FailedRequestCount s2 + 1\<rparr>
                in ProcessNextRequest e
                     (s3\<lparr>ActiveRequests := RemoveFirstById (RequestId Request) (ActiveRequests s3)\<rparr>)))
      | None \<Rightarrow>
          (let s1 = (if WorldContextValid e
                     then s\<lparr>Effects := Effects s @ [TimerSet (RequestId Request)],
                            TimeoutHandles := insert (RequestId Request) (TimeoutHandles s)\<rparr>
                     else s);
               s2 = s1\<lparr>Effects := Effects s1 @ [AsyncLoadRequested (RequestId Request) (WidgetClass Request)]\<rparr>
           in if RequestAsyncLoadValid e (WidgetClass Request)
              then s2\<lparr>ActiveHandles := insert (RequestId Request) (ActiveHandles s2)\<rparr>
              else (let s3 = ExecuteLoadFailed Request ''Failed to create streamable handle'' s2;
                        s4 = s3\<lparr>ActiveRequests := RemoveFirstById (RequestId Request) (ActiveRequests s3)\<rparr>
                    in ProcessNextRequest e (s4\<lparr>FailedRequestCount := FailedRequestCount s4 + 1\<rparr>))))"
  by pat_completeness auto

lemma Pending_CreateAndSetupWidget:
  "CreateAndSetupWidget e c r s = (w, s1) \<Longrightarrow> PendingRequests s1 = PendingRequests s"
  by (auto simp: CreateAndSetupWidget_def split: if_splits)

lemma Pending_AddToWidgetClassCache [simp]:
  "PendingRequests (AddToWidgetClassCache e p c s) = PendingRequests s"
  by (simp add: AddToWidgetClassCache_def split: option.splits)

lemma Pending_ExecuteLoadCompleted [simp]:
  "PendingRequests (ExecuteLoadCompleted e r w s) = PendingRequests s"
  by (simp add: ExecuteLoadCompleted_def Let_def split: completed_delegate.splits)

lemma Pending_ExecuteLoadFailed [simp]:
  "PendingRequests (ExecuteLoadFailed r msg s) = PendingRequests s"
  by (simp add: ExecuteLoadFailed_def split: failed_delegate.splits)

termination ProcessNextRequest
  by (relation "measure (\<lambda>x. case x of
          Inl (e, s) \<Rightarrow> 2 * length (PendingRequests s)
        | Inr (e, r, s) \<Rightarrow> 2 * length (PendingRequests s) + 1)")
     (auto simp: Let_def dest: Pending_CreateAndSetupWidget [OF sym])

declare ProcessNextRequest.simps [simp del] StartLoadingWidget.simps [simp del]

subsection \<open>The two ways StartLoadingWidget ends\<close>

text \<open>
  \<^verbatim>\<open>StartLoadingWidget\<close> either ends the request at once (cache hit, or no streamable
  handle) and hands over to \<^verbatim>\<open>ProcessNextRequest\<close>, or leaves the request in flight.
  \<open>SyncFinish\<close> is the state at the hand-over, if there is one; \<open>AsyncStart\<close> is the state
  returned otherwise. Both repeat the text of the function above and are proved to agree
  with it (\<open>StartLoadingWidget_unfold\<close>).
\<close>

definition SyncFinish :: "env \<Rightarrow> request \<Rightarrow> manager \<Rightarrow> manager option" where
  "SyncFinish e Request s0 =
     (let s = s0\<lparr>Effects := Effects s0 @ [LoadStarted (RequestId Request)]\<rparr>
      in case GetFromWidgetClassCache s (WidgetClass Request) of
        Some CachedClass \<Rightarrow>
          (case CreateAndSetupWidget e CachedClass Request s of
             (Some CreatedWidget, s1) \<Rightarrow>
               (let s2 = ExecuteLoadCompleted e Request CreatedWidget s1;
                    s3 = s2\<lparr>CompletedRequestCount := CompletedRequestCount s2 + 1\<rparr>
                in Some (s3\<lparr>ActiveRequests := RemoveFirstById (RequestId Request) (ActiveRequests s3)\<rparr>))
           | (None, s1) \<Rightarrow>
               (let s2 = ExecuteLoadFailed Request ''Failed to create widget from cached class'' s1;
                    s3 = s2\<lparr>FailedRequestCount := FailedRequestCount s2 + 1\<rparr>
                in Some (s3\<lparr>ActiveRequests := RemoveFirstById (RequestId Request) (ActiveRequests s3)\<rparr>)))
      | None \<Rightarrow>
          (let s1 = (if WorldContextValid e
                     then s\<lparr>Effects := Effects s @ [TimerSet (RequestId Request)],
                            TimeoutHandles := insert (RequestId Request) (TimeoutHandles s)\<rparr>
                     else s);
               s2 = s1\<lparr>Effects := Effects s1 @ [AsyncLoadRequested (RequestId Request) (WidgetClass Request)]\<rparr>
           in if RequestAsyncLoadValid e (WidgetClass Request)
              then None
              else (let s3 = ExecuteLoadFailed Request ''Failed to create streamable handle'' s2;
                        s4 = s3\<lparr>ActiveRequests := RemoveFirstById (RequestId Request) (ActiveRequests s3)\<rparr>
                    in Some (s4\<lparr>FailedRequestCount := FailedRequestCount s4 + 1\<rparr>))))"

definition AsyncStart :: "env \<Rightarrow> request \<Rightarrow> manager \<Rightarrow> manager" where
  "AsyncStart e Request s0 =
     (let s = s0\<lparr>Effects := Effects s0 @ [LoadStarted (RequestId Request)]\<rparr>;
          s1 = (if WorldContextValid e
                then s\<lparr>Effects := Effects s @ [TimerSet (RequestId Request)],
                       TimeoutHandles := insert (RequestId Request) (TimeoutHandles s)\<rparr>
                else s);
          s2 = s1\<lparr>Effects := Effects s1 @ [AsyncLoadRequested (RequestId Request) (WidgetClass Request)]\<rparr>
      in s2\<lparr>ActiveHandles := insert (RequestId Request) (ActiveHandles s2)\<rparr>)"

lemma StartLoadingWidget_unfold:
  "StartLoadingWidget e r s =
     (case SyncFinish e r s of Some s' \<Rightarrow> ProcessNextRequest e s' | None \<Rightarrow> AsyncStart e r s)"
  by (subst StartLoadingWidget.simps)
     (simp add: SyncFinish_def AsyncStart_def Let_def split: option.splits prod.splits)

lemma CreateAndSetupWidget_fields:
  assumes "CreateAndSetupWidget e c r s = (w, s1)"
  shows "ActiveRequests s1 = ActiveRequests s" "PendingRequests s1 = PendingRequests s"
    "CancelledRequestIds s1 = CancelledRequestIds s" "ActiveHandles s1 = ActiveHandles s"
    "TimeoutHandles s1 = TimeoutHandles s" "MaxConcurrentLoads s1 = MaxConcurrentLoads s"
    "LoadTimeoutSeconds s1 = LoadTimeoutSeconds s" "TotalRequestCount s1 = TotalRequestCount s"
    "CompletedRequestCount s1 = CompletedRequestCount s" "FailedRequestCount s1 = FailedRequestCount s"
    "CancelledRequestCount s1 = CancelledRequestCount s" "WidgetClassCache s1 = WidgetClassCache s"
  using assms by (auto simp: CreateAndSetupWidget_def split: if_splits)

lemma AddToWidgetClassCache_fields [simp]:
  "ActiveRequests (AddToWidgetClassCache e p c s) = ActiveRequests s"
  "CancelledRequestIds (AddToWidgetClassCache e p c s) = CancelledRequestIds s"
  "ActiveHandles (AddToWidgetClassCache e p c s) = ActiveHandles s"
  "TimeoutHandles (AddToWidgetClassCache e p c s) = TimeoutHandles s"
  "MaxConcurrentLoads (AddToWidgetClassCache e p c s) = MaxConcurrentLoads s"
  "LoadTimeoutSeconds (AddToWidgetClassCache e p c s) = LoadTimeoutSeconds s"
  "TotalRequestCount (AddToWidgetClassCache e p c s) = TotalRequestCount s"
  "CompletedRequestCount (AddToWidgetClassCache e p c s) = CompletedRequestCount s"
  "FailedRequestCount (AddToWidgetClassCache e p c s) = FailedRequestCount s"
  "CancelledRequestCount (AddToWidgetClassCache e p c s) = CancelledRequestCount s"
  "Effects (AddToWidgetClassCache e p c s) = Effects s"
  by (simp_all add: AddToWidgetClassCache_def split: option.splits)

lemma ExecuteLoadCompleted_fields [simp]:
  "ActiveRequests (ExecuteLoadCompleted e r w s) = ActiveRequests s"
  "CancelledRequestIds (ExecuteLoadCompleted e r w s) = CancelledRequestIds s"
  "ActiveHandles (ExecuteLoadCompleted e r w s) = ActiveHandles s"
  "TimeoutHandles (ExecuteLoadCompleted e r w s) = TimeoutHandles s"
  "MaxConcurrentLoads (ExecuteLoadCompleted e r w s) = MaxConcurrentLoads s"
  "LoadTimeoutSeconds (ExecuteLoadCompleted e r w s) = LoadTimeoutSeconds s"
  "TotalRequestCount (ExecuteLoadCompleted e r w s) = TotalRequestCount s"
  "CompletedRequestCount (ExecuteLoadCompleted e r w s) = CompletedRequestCount s"
  "FailedRequestCount (ExecuteLoadCompleted e r w s) = FailedRequestCount s"
  "CancelledRequestCount (ExecuteLoadCompleted e r w s) = CancelledRequestCount s"
  by (simp_all add: ExecuteLoadCompleted_def Let_def split: completed_delegate.splits)

lemma ExecuteLoadFailed_fields [simp]:
  "ActiveRequests (ExecuteLoadFailed r m s) = ActiveRequests s"
  "CancelledRequestIds (ExecuteLoadFailed r m s) = CancelledRequestIds s"
  "ActiveHandles (ExecuteLoadFailed r m s) = ActiveHandles s"
  "TimeoutHandles (ExecuteLoadFailed r m s) = TimeoutHandles s"
  "MaxConcurrentLoads (ExecuteLoadFailed r m s) = MaxConcurrentLoads s"
  "LoadTimeoutSeconds (ExecuteLoadFailed r m s) = LoadTimeoutSeconds s"
  "TotalRequestCount (ExecuteLoadFailed r m s) = TotalRequestCount s"
  "CompletedRequestCount (ExecuteLoadFailed r m s) = CompletedRequestCount s"
  "FailedRequestCount (ExecuteLoadFailed r m s) = FailedRequestCount s"
  "CancelledRequestCount (ExecuteLoadFailed r m s) = CancelledRequestCount s"
  "WidgetClassCache (ExecuteLoadFailed r m s) = WidgetClassCache s"
  by (simp_all add: ExecuteLoadFailed_def split: failed_delegate.splits)

lemma SyncFinish_fields:
  assumes "SyncFinish e r s = Some s'"
  shows "PendingRequests s' = PendingRequests s"
    "ActiveRequests s' = RemoveFirstById (RequestId r) (ActiveRequests s)"
    "CancelledRequestIds s' = CancelledRequestIds s"
    "MaxConcurrentLoads s' = MaxConcurrentLoads s"
    "CancelledRequestCount s' = CancelledRequestCount s"
    "TotalRequestCount s' = TotalRequestCount s"
    "ActiveHandles s' = ActiveHandles s"
    "LoadTimeoutSeconds s' = LoadTimeoutSeconds s"
  using assms
  by (auto simp: SyncFinish_def Let_def CreateAndSetupWidget_fields
      split: option.splits prod.splits if_splits)

lemma SyncFinish_facts:
  assumes "SyncFinish e r s = Some s'"
  shows "PendingRequests s' = PendingRequests s
    \<and> ActiveRequests s' = RemoveFirstById (RequestId r) (ActiveRequests s)
    \<and> CancelledRequestIds s' = CancelledRequestIds s
    \<and> MaxConcurrentLoads s' = MaxConcurrentLoads s
    \<and> CancelledRequestCount s' = CancelledRequestCount s
    \<and> TotalRequestCount s' = TotalRequestCount s
    \<and> ActiveHandles s' = ActiveHandles s
    \<and> LoadTimeoutSeconds s' = LoadTimeoutSeconds s"
  using SyncFinish_fields [OF assms] by simp

lemma AsyncStart_fields [simp]:
  "PendingRequests (AsyncStart e r s) = PendingRequests s"
  "ActiveRequests (AsyncStart e r s) = ActiveRequests s"
  "CancelledRequestIds (AsyncStart e r s) = CancelledRequestIds s"
  "MaxConcurrentLoads (AsyncStart e r s) = MaxConcurrentLoads s"
  "LoadTimeoutSeconds (AsyncStart e r s) = LoadTimeoutSeconds s"
  "TotalRequestCount (AsyncStart e r s) = TotalRequestCount s"
  "CompletedRequestCount (AsyncStart e r s) = CompletedRequestCount s"
  "FailedRequestCount (AsyncStart e r s) = FailedRequestCount s"
  "CancelledRequestCount (AsyncStart e r s) = CancelledRequestCount s"
  "WidgetClassCache (AsyncStart e r s) = WidgetClassCache s"
  by (simp_all add: AsyncStart_def Let_def)

lemma ProcessNextRequest_unfold:
  "ProcessNextRequest e s =
     (case PendingRequests s of
        [] \<Rightarrow> s
      | n # rest \<Rightarrow>
          if int (length (ActiveRequests s)) < MaxConcurrentLoads s then
            if bCancelled n \<or> RequestId n \<in> set (CancelledRequestIds s)
            then ProcessNextRequest e (s\<lparr>PendingRequests := rest\<rparr>)
            else (case SyncFinish e n (s\<lparr>PendingRequests := rest, ActiveRequests := ActiveRequests s @ [n]\<rparr>) of
                    Some s' \<Rightarrow> ProcessNextRequest e s'
                  | None \<Rightarrow> AsyncStart e n (s\<lparr>PendingRequests := rest, ActiveRequests := ActiveRequests s @ [n]\<rparr>))
          else s)"
  by (subst ProcessNextRequest.simps) (simp add: StartLoadingWidget_unfold split: list.splits)

text \<open>
  A proof rule for \<^verbatim>\<open>ProcessNextRequest\<close>: a relation between the state before and the state
  after holds if it holds when nothing is admitted and is carried backwards over a skipped
  (cancelled) request, over a request that ends at once, and over a request left in flight.
\<close>

lemma ProcessNextRequest_rule [case_names Stop Skip Sync Async]:
  assumes stop: "\<And>s. PendingRequests s = [] \<or> \<not> int (length (ActiveRequests s)) < MaxConcurrentLoads s
                   \<Longrightarrow> Q s s"
    and skip: "\<And>s n rest res. PendingRequests s = n # rest
                   \<Longrightarrow> int (length (ActiveRequests s)) < MaxConcurrentLoads s
                   \<Longrightarrow> bCancelled n \<or> RequestId n \<in> set (CancelledRequestIds s)
                   \<Longrightarrow> Q (s\<lparr>PendingRequests := rest\<rparr>) res \<Longrightarrow> Q s res"
    and sync: "\<And>s n rest s' res. PendingRequests s = n # rest
                   \<Longrightarrow> int (length (ActiveRequests s)) < MaxConcurrentLoads s
                   \<Longrightarrow> \<not> (bCancelled n \<or> RequestId n \<in> set (CancelledRequestIds s))
                   \<Longrightarrow> SyncFinish e n (s\<lparr>PendingRequests := rest, ActiveRequests := ActiveRequests s @ [n]\<rparr>) = Some s'
                   \<Longrightarrow> Q s' res \<Longrightarrow> Q s res"
    and async: "\<And>s n rest. PendingRequests s = n # rest
                   \<Longrightarrow> int (length (ActiveRequests s)) < MaxConcurrentLoads s
                   \<Longrightarrow> \<not> (bCancelled n \<or> RequestId n \<in> set (CancelledRequestIds s))
                   \<Longrightarrow> SyncFinish e n (s\<lparr>PendingRequests := rest, ActiveRequests := ActiveRequests s @ [n]\<rparr>) = None
                   \<Longrightarrow> Q s (AsyncStart e n (s\<lparr>PendingRequests := rest, ActiveRequests := ActiveRequests s @ [n]\<rparr>))"
  shows "Q s (ProcessNextRequest e s)"
proof (induction "length (PendingRequests s)" arbitrary: s rule: less_induct)
  case less
  show ?case
  proof (cases "PendingRequests s")
    case Nil
    then have "ProcessNextRequest e s = s" by (subst ProcessNextRequest_unfold) simp
    with stop [of s] Nil show ?thesis by simp
  next
    case (Cons n rest)
    show ?thesis
    proof (cases "int (length (ActiveRequests s)) < MaxConcurrentLoads s")
      case False
      then have "ProcessNextRequest e s = s" using Cons by (subst ProcessNextRequest_unfold) simp
      with stop [of s] False show ?thesis by simp
    next
      case True
      show ?thesis
      proof (cases "bCancelled n \<or> RequestId n \<in> set (CancelledRequestIds s)")
        case c: True
        have eq: "ProcessNextRequest e s = ProcessNextRequest e (s\<lparr>PendingRequests := rest\<rparr>)"
          using Cons True c by (subst ProcessNextRequest_unfold) simp
        have "Q (s\<lparr>PendingRequests := rest\<rparr>) (ProcessNextRequest e (s\<lparr>PendingRequests := rest\<rparr>))"
          using Cons by (intro less) simp
        from skip [OF Cons True c this] eq show ?thesis by simp
      next
        case c: False
        let ?t = "s\<lparr>PendingRequests := rest, ActiveRequests := ActiveRequests s @ [n]\<rparr>"
        show ?thesis
        proof (cases "SyncFinish e n ?t")
          case None
          then have "ProcessNextRequest e s = AsyncStart e n ?t"
            using Cons True c by (subst ProcessNextRequest_unfold) simp
          with async [OF Cons True c None] show ?thesis by simp
        next
          case (Some s')
          then have eq: "ProcessNextRequest e s = ProcessNextRequest e s'"
            using Cons True c by (subst ProcessNextRequest_unfold) simp
          have "PendingRequests s' = rest" using SyncFinish_fields(1) [OF Some] by simp
          then have "Q s' (ProcessNextRequest e s')" using Cons by (intro less) simp
          from sync [OF Cons True c Some this] eq show ?thesis by simp
        qed
      qed
    qed
  qed
qed

lemma ProcessNextRequest_keeps:
  "MaxConcurrentLoads (ProcessNextRequest e s) = MaxConcurrentLoads s
   \<and> CancelledRequestIds (ProcessNextRequest e s) = CancelledRequestIds s
   \<and> CancelledRequestCount (ProcessNextRequest e s) = CancelledRequestCount s
   \<and> TotalRequestCount (ProcessNextRequest e s) = TotalRequestCount s
   \<and> LoadTimeoutSeconds (ProcessNextRequest e s) = LoadTimeoutSeconds s"
  by (rule ProcessNextRequest_rule [where Q = "\<lambda>s res. MaxConcurrentLoads res = MaxConcurrentLoads s
   \<and> CancelledRequestIds res = CancelledRequestIds s
   \<and> CancelledRequestCount res = CancelledRequestCount s
   \<and> TotalRequestCount res = TotalRequestCount s
   \<and> LoadTimeoutSeconds res = LoadTimeoutSeconds s"])
     (auto dest: SyncFinish_facts)

lemma ProcessNextRequest_pending_length:
  "length (PendingRequests (ProcessNextRequest e s)) \<le> length (PendingRequests s)
   \<and> (int (length (ActiveRequests s)) < MaxConcurrentLoads s \<and> PendingRequests s \<noteq> []
        \<longrightarrow> length (PendingRequests (ProcessNextRequest e s)) < length (PendingRequests s))"
  by (rule ProcessNextRequest_rule [where Q = "\<lambda>s res.
     length (PendingRequests res) \<le> length (PendingRequests s)
     \<and> (int (length (ActiveRequests s)) < MaxConcurrentLoads s \<and> PendingRequests s \<noteq> []
        \<longrightarrow> length (PendingRequests res) < length (PendingRequests s))"])
     (auto dest!: SyncFinish_facts)

subsection \<open>SetMaxConcurrentLoads\<close>

text \<open>
  \<^verbatim>\<open>SetMaxConcurrentLoads\<close>: the limit is clamped to at least 1, then the \<^verbatim>\<open>while\<close> loop admits
  pending requests as long as a slot is free. Each round takes at least one request from
  the pending queue, so the loop ends.
\<close>

function SetMaxConcurrentLoads_loop :: "env \<Rightarrow> manager \<Rightarrow> manager" where
  "SetMaxConcurrentLoads_loop e s =
     (if int (length (ActiveRequests s)) < MaxConcurrentLoads s \<and> 0 < length (PendingRequests s)
      then SetMaxConcurrentLoads_loop e (ProcessNextRequest e s)
      else s)"
  by pat_completeness auto

termination
  by (relation "measure (\<lambda>(e, s). length (PendingRequests s))")
     (use ProcessNextRequest_pending_length in auto)

declare SetMaxConcurrentLoads_loop.simps [simp del]

definition SetMaxConcurrentLoads :: "env \<Rightarrow> int \<Rightarrow> manager \<Rightarrow> manager" where
  "SetMaxConcurrentLoads e NewMaxConcurrentLoads s =
     SetMaxConcurrentLoads_loop e (s\<lparr>MaxConcurrentLoads := max 1 NewMaxConcurrentLoads\<rparr>)"


subsection \<open>Public operations\<close>

text \<open>
  \<^verbatim>\<open>LoadWidgetAsync\<close>. The request constructor reads \<open>NewGuid\<close> and \<open>PlatformSeconds\<close> from
  the environment. The result is the returned id and the new state.
\<close>

definition LoadWidgetAsync ::
  "env \<Rightarrow> softptr \<Rightarrow> completed_delegate \<Rightarrow> failed_delegate \<Rightarrow> bool \<Rightarrow> bool \<Rightarrow> int \<Rightarrow> int
     \<Rightarrow> manager \<Rightarrow> guid \<times> manager" where
  "LoadWidgetAsync e WidgetClass' OnLoadCompleted' OnLoadFailed' bRemoveParent' bDestroyParent'
       ZOrder' Priority' s =
     (if IsNull WidgetClass' then
        (0, case OnLoadFailed' of
              UnboundFailed \<Rightarrow> s
            | d \<Rightarrow> s\<lparr>Effects := Effects s @ [SubmitFailedExecuted d ''Invalid widget class provided'']\<rparr>)
      else
        (let NewRequest = \<lparr> RequestId = NewGuid e, WidgetClass = WidgetClass',
               bRemoveParent = bRemoveParent', bDestroyParent = bDestroyParent', ZOrder = ZOrder',
               OnLoadCompleted = OnLoadCompleted', OnLoadFailed = OnLoadFailed',
               RequestTime = ToFloat (PlatformSeconds e), bCancelled = False, Priority = Priority' \<rparr>;
             s1 = s\<lparr>TotalRequestCount := TotalRequestCount s + 1\<rparr>
         in if int (length (ActiveRequests s1)) < MaxConcurrentLoads s1
            then (RequestId NewRequest,
                  StartLoadingWidget e NewRequest
                    (s1\<lparr>ActiveRequests := ActiveRequests s1 @ [NewRequest]\<rparr>))
            else (RequestId NewRequest,
                  s1\<lparr>PendingRequests := Sort (PendingRequests s1 @ [NewRequest])\<rparr>)))"

text \<open>
  Cancelling the streamable handle and clearing the timeout timer of a request, as
  \<^verbatim>\<open>CancelLoadRequest\<close> does for an active request. A handle is stored only when it is valid.
\<close>

definition CancelHandleOf :: "guid \<Rightarrow> manager \<Rightarrow> manager" where
  "CancelHandleOf g s =
     (if g \<in> ActiveHandles s
      then s\<lparr>Effects := Effects s @ [HandleCancelled g], ActiveHandles := ActiveHandles s - {g}\<rparr>
      else s)"

definition ClearTimeoutOf :: "env \<Rightarrow> guid \<Rightarrow> manager \<Rightarrow> manager" where
  "ClearTimeoutOf e g s =
     (if g \<in> TimeoutHandles s
      then (let s1 = (if WorldContextValid e then s\<lparr>Effects := Effects s @ [TimerCleared g]\<rparr> else s)
            in s1\<lparr>TimeoutHandles := TimeoutHandles s1 - {g}\<rparr>)
      else s)"

definition CancelLoadRequest :: "env \<Rightarrow> guid \<Rightarrow> manager \<Rightarrow> bool \<times> manager" where
  "CancelLoadRequest e g s =
     (if \<not> GuidIsValid g then (False, s)
      else case FindById g (ActiveRequests s) of
        Some r \<Rightarrow>
          (let s1 = CancelHandleOf g s;
               s2 = ClearTimeoutOf e g s1;
               s3 = s2\<lparr>ActiveRequests := MarkCancelledById g (ActiveRequests s2)\<rparr>;
               s4 = s3\<lparr>CancelledRequestIds := SetAdd g (CancelledRequestIds s3)\<rparr>;
               s5 = s4\<lparr>ActiveRequests := RemoveFirstById g (ActiveRequests s4)\<rparr>;
               s6 = s5\<lparr>CancelledRequestCount := CancelledRequestCount s5 + 1\<rparr>
           in (True, ProcessNextRequest e s6))
      | None \<Rightarrow>
          (case FindById g (PendingRequests s) of
             Some r \<Rightarrow>
               (let s1 = s\<lparr>PendingRequests := MarkCancelledById g (PendingRequests s)\<rparr>;
                    s2 = s1\<lparr>CancelledRequestIds := SetAdd g (CancelledRequestIds s1)\<rparr>;
                    s3 = s2\<lparr>PendingRequests := RemoveFirstById g (PendingRequests s2)\<rparr>
                in (True, s3\<lparr>CancelledRequestCount := CancelledRequestCount s3 + 1\<rparr>))
           | None \<Rightarrow> (False, s)))"

text \<open>
  \<^verbatim>\<open>CancelAllLoadRequests\<close>: the loop over the active requests cancels handles and timers
  without removing their map entries; the maps are emptied at the end.
\<close>

definition CancelAllActiveStep :: "env \<Rightarrow> manager \<Rightarrow> request \<Rightarrow> manager" where
  "CancelAllActiveStep e s r =
     (let s1 = s\<lparr>CancelledRequestIds := SetAdd (RequestId r) (CancelledRequestIds s)\<rparr>;
          s2 = (if RequestId r \<in> ActiveHandles s1
                then s1\<lparr>Effects := Effects s1 @ [HandleCancelled (RequestId r)]\<rparr> else s1)
      in if RequestId r \<in> TimeoutHandles s2 \<and> WorldContextValid e
         then s2\<lparr>Effects := Effects s2 @ [TimerCleared (RequestId r)]\<rparr> else s2)"

definition CancelAllPendingStep :: "manager \<Rightarrow> request \<Rightarrow> manager" where
  "CancelAllPendingStep s r = s\<lparr>CancelledRequestIds := SetAdd (RequestId r) (CancelledRequestIds s)\<rparr>"

definition CancelAllLoadRequests :: "env \<Rightarrow> manager \<Rightarrow> manager" where
  "CancelAllLoadRequests e s =
     (let s1 = foldl (CancelAllActiveStep e) s (ActiveRequests s);
          s2 = foldl CancelAllPendingStep s1 (PendingRequests s1);
          s3 = s2\<lparr>CancelledRequestCount := CancelledRequestCount s2
                     + (int (length (ActiveRequests s2)) + int (length (PendingRequests s2)))\<rparr>
      in s3\<lparr>ActiveRequests := [], PendingRequests := [], ActiveHandles := {}, TimeoutHandles := {}\<rparr>)"

definition GetActiveLoadRequestCount :: "manager \<Rightarrow> int" where
  "GetActiveLoadRequestCount s = int (length (ActiveRequests s))"

definition GetPendingLoadRequestCount :: "manager \<Rightarrow> int" where
  "GetPendingLoadRequestCount s = int (length (PendingRequests s))"

definition IsWidgetLoading :: "manager \<Rightarrow> softptr \<Rightarrow> bool" where
  "IsWidgetLoading s p =
     (if list_ex (\<lambda>r. WidgetClass r = p \<and> \<not> bCancelled r) (ActiveRequests s) then True
      else if list_ex (\<lambda>r. WidgetClass r = p \<and> \<not> bCancelled r) (PendingRequests s) then True
      else False)"

definition SetLoadTimeout :: "rat \<Rightarrow> manager \<Rightarrow> manager" where
  "SetLoadTimeout TimeoutSeconds s = s\<lparr>LoadTimeoutSeconds := max 1 TimeoutSeconds\<rparr>"

text \<open>
  \<^verbatim>\<open>GetRequestStatus\<close>: the returned flag, then \<^verbatim>\<open>bIsActive\<close>, \<^verbatim>\<open>bIsPending\<close>, \<^verbatim>\<open>bIsCancelled\<close>.
\<close>

definition GetRequestStatus :: "manager \<Rightarrow> guid \<Rightarrow> bool \<times> bool \<times> bool \<times> bool" where
  "GetRequestStatus s g =
     (if g \<in> set (CancelledRequestIds s) then (True, False, False, True)
      else if FindById g (ActiveRequests s) \<noteq> None then (True, True, False, False)
      else if FindById g (PendingRequests s) \<noteq> None then (True, False, True, False)
      else (False, False, False, False))"

definition GetLoadStatistics :: "manager \<Rightarrow> int \<times> int \<times> int \<times> int" where
  "GetLoadStatistics s =
     (TotalRequestCount s, CompletedRequestCount s, FailedRequestCount s, CancelledRequestCount s)"

subsection \<open>Loader completion and timeout\<close>

text \<open>
  \<^verbatim>\<open>OnWidgetClassLoaded\<close> runs with the copy of the request that the streamable delegate
  captured when the load was started.
\<close>

definition OnWidgetClassLoaded :: "env \<Rightarrow> request \<Rightarrow> manager \<Rightarrow> manager" where
  "OnWidgetClassLoaded e Request s =
     (let s1 = s\<lparr>ActiveHandles := ActiveHandles s - {RequestId Request}\<rparr>;
          s2 = ClearTimeoutOf e (RequestId Request) s1
      in if bCancelled Request \<or> RequestId Request \<in> set (CancelledRequestIds s2) then
           ProcessNextRequest e
             (s2\<lparr>ActiveRequests := RemoveFirstById (RequestId Request) (ActiveRequests s2)\<rparr>)
         else
           (let s3 =
              (case SoftGet e (WidgetClass Request) of
                 None \<Rightarrow>
                   (let s4 = ExecuteLoadFailed Request ''Failed to load widget class'' s2
                    in s4\<lparr>FailedRequestCount := FailedRequestCount s4 + 1\<rparr>)
               | Some LoadedClass \<Rightarrow>
                   (let s4 = (if \<not> IsWidgetClassCached e s2 (WidgetClass Request)
                              then AddToWidgetClassCache e (WidgetClass Request) (Some LoadedClass) s2
                              else s2)
                    in case CreateAndSetupWidget e LoadedClass Request s4 of
                         (Some CreatedWidget, s5) \<Rightarrow>
                           (let s6 = ExecuteLoadCompleted e Request CreatedWidget s5
                            in s6\<lparr>CompletedRequestCount := CompletedRequestCount s6 + 1\<rparr>)
                       | (None, s5) \<Rightarrow>
                           (let s6 = ExecuteLoadFailed Request ''Failed to create widget instance'' s5
                            in s6\<lparr>FailedRequestCount := FailedRequestCount s6 + 1\<rparr>)))
            in ProcessNextRequest e
                 (s3\<lparr>ActiveRequests := RemoveFirstById (RequestId Request) (ActiveRequests s3)\<rparr>)))"

definition HandleLoadTimeout :: "env \<Rightarrow> guid \<Rightarrow> manager \<Rightarrow> manager" where
  "HandleLoadTimeout e g s =
     (case FindById g (ActiveRequests s) of
        None \<Rightarrow> s
      | Some Request \<Rightarrow>
          (let s1 = CancelHandleOf g s;
               s2 = ExecuteLoadFailed Request ''Load timeout'' s1;
               s3 = s2\<lparr>ActiveRequests := MarkCancelledById g (ActiveRequests s2)\<rparr>;
               s4 = s3\<lparr>CancelledRequestIds := SetAdd g (CancelledRequestIds s3)\<rparr>;
               s5 = s4\<lparr>ActiveRequests := RemoveFirstById g (ActiveRequests s4)\<rparr>;
               s6 = s5\<lparr>FailedRequestCount := FailedRequestCount s5 + 1\<rparr>;
               s7 = s6\<lparr>TimeoutHandles := TimeoutHandles s6 - {g}\<rparr>
           in ProcessNextRequest e s7))"

text \<open>
  \<^verbatim>\<open>CleanupCompletedRequests\<close>: the ids are sorted by their string form (the numeric order
  of the ids) and the first \<^verbatim>\<open>Num() - MaxCancelledIds / 2\<close> of the sorted array are removed.
\<close>

definition MaxCancelledIds :: nat where
  "MaxCancelledIds = 100"

definition CleanupCompletedRequests :: "manager \<Rightarrow> manager" where
  "CleanupCompletedRequests s =
     (if length (CancelledRequestIds s) > MaxCancelledIds then
        (let CancelledArray = sort (CancelledRequestIds s);
             ToRemove = length (CancelledRequestIds s) - MaxCancelledIds div 2
         in s\<lparr>CancelledRequestIds :=
                filter (\<lambda>g. g \<notin> set (take ToRemove CancelledArray)) (CancelledRequestIds s)\<rparr>)
      else s)"

subsection \<open>Cache operations\<close>

text \<open>
  \<^verbatim>\<open>ClearCache\<close>. No code path adds to \<^verbatim>\<open>CacheHandles\<close>, so the loop over it has nothing to
  cancel; the empty \<^verbatim>\<open>RequestAsyncLoad\<close> is recorded as \<open>StreamableFlushed\<close>.
\<close>

definition ClearCache :: "manager \<Rightarrow> manager" where
  "ClearCache s = s\<lparr>WidgetClassCache := Map.empty, Effects := Effects s @ [StreamableFlushed]\<rparr>"

definition PreloadWidgetClass :: "env \<Rightarrow> softptr \<Rightarrow> int \<Rightarrow> manager \<Rightarrow> guid \<times> manager" where
  "PreloadWidgetClass e WidgetClass' Priority' s =
     (if \<not> IsValid e WidgetClass' then (0, s)
      else if IsWidgetClassCached e s WidgetClass' then (0, s)
      else
        (let PreloadRequest = \<lparr> RequestId = NewGuid e, WidgetClass = WidgetClass',
               bRemoveParent = False, bDestroyParent = False, ZOrder = 0,
               OnLoadCompleted = PreloadCompleted WidgetClass',
               OnLoadFailed = PreloadFailed WidgetClass',
               RequestTime = ToFloat (PlatformSeconds e), bCancelled = False, Priority = Priority' \<rparr>;
             s1 = s\<lparr>TotalRequestCount := TotalRequestCount s + 1\<rparr>
         in if int (length (ActiveRequests s1)) < MaxConcurrentLoads s1
            then (RequestId PreloadRequest,
                  StartLoadingWidget e PreloadRequest
                    (s1\<lparr>ActiveRequests := ActiveRequests s1 @ [PreloadRequest]\<rparr>))
            else (RequestId PreloadRequest,
                  s1\<lparr>PendingRequests := Sort (PendingRequests s1 @ [PreloadRequest])\<rparr>)))"

subsection \<open>Calls and reachable states\<close>

text \<open>
  Everything that can happen to the manager: the public calls, the streamable delegate
  (\<open>WidgetClassLoaded\<close>, carrying the captured request), a timeout timer and the cleanup
  timer. Each step may see a different environment.
\<close>

datatype call =
    CallLoadWidgetAsync softptr completed_delegate failed_delegate bool bool int int
  | CallCancelLoadRequest guid
  | CallCancelAllLoadRequests
  | CallSetMaxConcurrentLoads int
  | CallSetLoadTimeout rat
  | CallClearCache
  | CallPreloadWidgetClass softptr int
  | WidgetClassLoaded request
  | LoadTimeout guid
  | CleanupTimer

fun step :: "env \<Rightarrow> call \<Rightarrow> manager \<Rightarrow> manager" where
  "step e (CallLoadWidgetAsync p oc ofl rp dp z pr) s = snd (LoadWidgetAsync e p oc ofl rp dp z pr s)"
| "step e (CallCancelLoadRequest g) s = snd (CancelLoadRequest e g s)"
| "step e CallCancelAllLoadRequests s = CancelAllLoadRequests e s"
| "step e (CallSetMaxConcurrentLoads n) s = SetMaxConcurrentLoads e n s"
| "step e (CallSetLoadTimeout t) s = SetLoadTimeout t s"
| "step e CallClearCache s = ClearCache s"
| "step e (CallPreloadWidgetClass p pr) s = snd (PreloadWidgetClass e p pr s)"
| "step e (WidgetClassLoaded r) s = OnWidgetClassLoaded e r s"
| "step e (LoadTimeout g) s = HandleLoadTimeout e g s"
| "step e CleanupTimer s = CleanupCompletedRequests s"

inductive reachable :: "manager \<Rightarrow> bool" where
  reachable_init: "reachable NewManager"
| reachable_step: "reachable s \<Longrightarrow> reachable (step e c s)"

section \<open>Effects of a call\<close>

text \<open>
  \<open>EffectRequest\<close> is the request an effect belongs to, \<open>IsCallbackOf g\<close> holds of the two
  delegate calls made for request \<open>g\<close>, and \<open>NewEffects s s'\<close> are the effects added between
  the states \<open>s\<close> and \<open>s'\<close>.
\<close>

fun EffectRequest :: "effect \<Rightarrow> guid option" where
  "EffectRequest (LoadStarted g) = Some g"
| "EffectRequest (LoadCompletedExecuted g d w) = Some g"
| "EffectRequest (LoadFailedExecuted g d m) = Some g"
| "EffectRequest (AsyncLoadRequested g p) = Some g"
| "EffectRequest (HandleCancelled g) = Some g"
| "EffectRequest (TimerSet g) = Some g"
| "EffectRequest (TimerCleared g) = Some g"
| "EffectRequest (SubmitFailedExecuted d m) = None"
| "EffectRequest (GoToWidgetCalled c rp dp z) = None"
| "EffectRequest (RemoveFromParentCalled w) = None"
| "EffectRequest StreamableFlushed = None"

fun IsCallbackOf :: "guid \<Rightarrow> effect \<Rightarrow> bool" where
  "IsCallbackOf g (LoadCompletedExecuted h d w) = (h = g)"
| "IsCallbackOf g (LoadFailedExecuted h d m) = (h = g)"
| "IsCallbackOf g ef = False"

definition NewEffects :: "manager \<Rightarrow> manager \<Rightarrow> effect list" where
  "NewEffects s s' = drop (length (Effects s)) (Effects s')"

lemma IsCallbackOf_EffectRequest: "IsCallbackOf g ef \<Longrightarrow> EffectRequest ef = Some g"
  by (cases ef) auto

definition OnlyFor :: "guid \<Rightarrow> effect list \<Rightarrow> bool" where
  "OnlyFor g efs = (\<forall>ef \<in> set efs. EffectRequest ef = None \<or> EffectRequest ef = Some g)"

lemma OnlyFor_simps [simp]:
  "OnlyFor g []"
  "OnlyFor g (ef # efs) = ((EffectRequest ef = None \<or> EffectRequest ef = Some g) \<and> OnlyFor g efs)"
  "OnlyFor g (xs @ ys) = (OnlyFor g xs \<and> OnlyFor g ys)"
  by (auto simp: OnlyFor_def)

lemma CreateAndSetupWidget_effects:
  "CreateAndSetupWidget e c r s = (w, s1) \<Longrightarrow> \<exists>new. Effects s1 = Effects s @ new \<and> OnlyFor g new"
  by (auto simp: CreateAndSetupWidget_def split: if_splits)

lemma ExecuteLoadCompleted_effects:
  "\<exists>new. Effects (ExecuteLoadCompleted e r w s) = Effects s @ new \<and> OnlyFor (RequestId r) new"
  by (cases "OnLoadCompleted r") (auto simp: ExecuteLoadCompleted_def Let_def)

lemma ExecuteLoadFailed_effects:
  "\<exists>new. Effects (ExecuteLoadFailed r m s) = Effects s @ new \<and> OnlyFor (RequestId r) new"
  by (cases "OnLoadFailed r") (auto simp: ExecuteLoadFailed_def)

lemma SyncFinish_effects:
  assumes "SyncFinish e r s = Some s'"
  shows "\<exists>new. Effects s' = Effects s @ new \<and> OnlyFor (RequestId r) new"
proof (cases "GetFromWidgetClassCache s (WidgetClass r)")
  case None
  let ?s1 = "s\<lparr>Effects := Effects s @ [LoadStarted (RequestId r)]\<rparr>"
  let ?s2 = "if WorldContextValid e
                     then ?s1\<lparr>Effects := Effects ?s1 @ [TimerSet (RequestId r)],
                            TimeoutHandles := insert (RequestId r) (TimeoutHandles ?s1)\<rparr>
                     else ?s1"
  let ?s3 = "?s2\<lparr>Effects := Effects ?s2 @ [AsyncLoadRequested (RequestId r) (WidgetClass r)]\<rparr>"
  obtain new where n: "Effects (ExecuteLoadFailed r ''Failed to create streamable handle'' ?s3) = Effects ?s3 @ new"
      "OnlyFor (RequestId r) new"
    using ExecuteLoadFailed_effects by blast
  from assms None have "Effects s' = Effects (ExecuteLoadFailed r ''Failed to create streamable handle'' ?s3)"
    by (auto simp: SyncFinish_def GetFromWidgetClassCache_def Let_def split: if_splits)
  with n show ?thesis by (auto split: if_splits)
next
  case (Some c)
  let ?s1 = "s\<lparr>Effects := Effects s @ [LoadStarted (RequestId r)]\<rparr>"
  obtain w s2 where cw: "CreateAndSetupWidget e c r ?s1 = (w, s2)" by (cases "CreateAndSetupWidget e c r ?s1")
  then obtain n1 where n1: "Effects s2 = Effects ?s1 @ n1" "OnlyFor (RequestId r) n1"
    using CreateAndSetupWidget_effects by blast
  show ?thesis
  proof (cases w)
    case None
    obtain n2 where n2: "Effects (ExecuteLoadFailed r ''Failed to create widget from cached class'' s2) = Effects s2 @ n2"
      "OnlyFor (RequestId r) n2"
      using ExecuteLoadFailed_effects by blast
    from assms Some cw None have "Effects s' = Effects (ExecuteLoadFailed r ''Failed to create widget from cached class'' s2)"
      by (auto simp: SyncFinish_def GetFromWidgetClassCache_def Let_def)
    with n1 n2 show ?thesis by auto
  next
    case (Some cw')
    obtain n2 where n2: "Effects (ExecuteLoadCompleted e r cw' s2) = Effects s2 @ n2"
      "OnlyFor (RequestId r) n2"
      using ExecuteLoadCompleted_effects by blast
    from assms \<open>GetFromWidgetClassCache s (WidgetClass r) = Some c\<close> cw Some
    have "Effects s' = Effects (ExecuteLoadCompleted e r cw' s2)"
      by (auto simp: SyncFinish_def GetFromWidgetClassCache_def Let_def)
    with n1 n2 show ?thesis by auto
  qed
qed

lemma AsyncStart_effects:
  "\<exists>new. Effects (AsyncStart e r s) = Effects s @ new \<and> OnlyFor (RequestId r) new"
  by (auto simp: AsyncStart_def Let_def)

text \<open>
  Every effect of one call of \<^verbatim>\<open>ProcessNextRequest\<close> that belongs to a request belongs to a
  pending request whose id is not recorded as cancelled.
\<close>

definition AdmittedOnly :: "manager \<Rightarrow> effect list \<Rightarrow> bool" where
  "AdmittedOnly s efs =
     (\<forall>ef \<in> set efs. \<forall>g. EffectRequest ef = Some g \<longrightarrow>
        g \<in> RequestId ` set (PendingRequests s) \<and> g \<notin> set (CancelledRequestIds s))"

lemma ProcessNextRequest_effects:
  "\<exists>new. Effects (ProcessNextRequest e s) = Effects s @ new \<and> AdmittedOnly s new"
proof (rule ProcessNextRequest_rule [where Q = "\<lambda>s res. \<exists>new. Effects res = Effects s @ new \<and> AdmittedOnly s new"])
  fix s :: manager
  show "\<exists>new. Effects s = Effects s @ new \<and> AdmittedOnly s new"
    by (simp add: AdmittedOnly_def)
next
  fix s res :: manager and n rest
  assume p: "PendingRequests s = n # rest"
    and "\<exists>new. Effects res = Effects (s\<lparr>PendingRequests := rest\<rparr>) @ new
           \<and> AdmittedOnly (s\<lparr>PendingRequests := rest\<rparr>) new"
  then obtain new where "Effects res = Effects s @ new" "AdmittedOnly (s\<lparr>PendingRequests := rest\<rparr>) new"
    by auto
  moreover from this p have "AdmittedOnly s new" by (auto simp: AdmittedOnly_def)
  ultimately show "\<exists>new. Effects res = Effects s @ new \<and> AdmittedOnly s new" by blast
next
  fix s s' res :: manager and n rest
  let ?t = "s\<lparr>PendingRequests := rest, ActiveRequests := ActiveRequests s @ [n]\<rparr>"
  assume p: "PendingRequests s = n # rest"
    and nc: "\<not> (bCancelled n \<or> RequestId n \<in> set (CancelledRequestIds s))"
    and sf: "SyncFinish e n ?t = Some s'"
    and "\<exists>new. Effects res = Effects s' @ new \<and> AdmittedOnly s' new"
  then obtain n2 where n2: "Effects res = Effects s' @ n2" "AdmittedOnly s' n2" by auto
  from SyncFinish_effects [OF sf] obtain n1 where n1: "Effects s' = Effects s @ n1" "OnlyFor (RequestId n) n1"
    by auto
  have f: "PendingRequests s' = rest" "CancelledRequestIds s' = CancelledRequestIds s"
    using SyncFinish_fields [OF sf] by simp_all
  have "AdmittedOnly s (n1 @ n2)"
    using n1(2) n2(2) f p nc by (auto simp: AdmittedOnly_def OnlyFor_def)
  with n1 n2 show "\<exists>new. Effects res = Effects s @ new \<and> AdmittedOnly s new" by auto
next
  fix s :: manager and n rest
  let ?t = "s\<lparr>PendingRequests := rest, ActiveRequests := ActiveRequests s @ [n]\<rparr>"
  assume p: "PendingRequests s = n # rest"
    and nc: "\<not> (bCancelled n \<or> RequestId n \<in> set (CancelledRequestIds s))"
  obtain n1 where n1: "Effects (AsyncStart e n ?t) = Effects ?t @ n1" "OnlyFor (RequestId n) n1"
    using AsyncStart_effects by blast
  have "AdmittedOnly s n1" using n1(2) p nc by (auto simp: AdmittedOnly_def OnlyFor_def)
  with n1 show "\<exists>new. Effects (AsyncStart e n ?t) = Effects s @ new \<and> AdmittedOnly s new" by auto
qed

lemma NewEffects_append: "Effects s' = Effects s @ new \<Longrightarrow> NewEffects s s' = new"
  by (simp add: NewEffects_def)

lemma AdmittedOnly_no_callback:
  assumes "AdmittedOnly s new"
    and "g \<in> set (CancelledRequestIds s) \<or> g \<notin> RequestId ` set (PendingRequests s)"
  shows "filter (IsCallbackOf g) new = []"
  using assms by (auto simp: AdmittedOnly_def filter_empty_conv dest!: IsCallbackOf_EffectRequest)

section \<open>Further facts about the operations\<close>

lemma ProcessNextRequest_counters_mono:
  "FailedRequestCount s \<le> FailedRequestCount (ProcessNextRequest e s)
   \<and> CompletedRequestCount s \<le> CompletedRequestCount (ProcessNextRequest e s)"
proof (rule ProcessNextRequest_rule [where Q = "\<lambda>s res. FailedRequestCount s \<le> FailedRequestCount res
   \<and> CompletedRequestCount s \<le> CompletedRequestCount res"])
  fix s s' res :: manager and n rest
  let ?t = "s\<lparr>PendingRequests := rest, ActiveRequests := ActiveRequests s @ [n]\<rparr>"
  assume sf: "SyncFinish e n ?t = Some s'"
    and r: "FailedRequestCount s' \<le> FailedRequestCount res \<and> CompletedRequestCount s' \<le> CompletedRequestCount res"
  from sf have "FailedRequestCount s \<le> FailedRequestCount s' \<and> CompletedRequestCount s \<le> CompletedRequestCount s'"
    by (auto simp: SyncFinish_def Let_def CreateAndSetupWidget_fields
        split: option.splits prod.splits if_splits)
  with r show "FailedRequestCount s \<le> FailedRequestCount res \<and> CompletedRequestCount s \<le> CompletedRequestCount res"
    by linarith
qed auto

lemma FindById_Some_nonempty: "FindById g xs = Some y \<Longrightarrow> 0 < length xs"
  by (cases xs) auto

lemma length_RemoveFirstById:
  "length (RemoveFirstById g xs) = (if FindById g xs = None then length xs else length xs - 1)"
  by (induction xs) (auto dest: FindById_Some_nonempty)

lemma FindById_append:
  "FindById g (xs @ ys) = (case FindById g xs of None \<Rightarrow> FindById g ys | Some r \<Rightarrow> Some r)"
  by (induction xs) auto

lemma length_RemoveFirstById_snoc:
  "length (RemoveFirstById (RequestId n) (xs @ [n])) = length xs"
  by (simp add: length_RemoveFirstById FindById_append split: option.splits)

lemma ProcessNextRequest_idle:
  "PendingRequests s = [] \<or> \<not> int (length (ActiveRequests s)) < MaxConcurrentLoads s
   \<Longrightarrow> ProcessNextRequest e s = s"
  by (subst ProcessNextRequest_unfold) (auto split: list.splits)

lemma SetAdd_member [simp]: "g \<in> set (SetAdd g gs)"
  by (simp add: SetAdd_def)

lemma set_SetAdd [simp]: "set (SetAdd g gs) = insert g (set gs)"
  by (auto simp: SetAdd_def)

lemma CancelHandleOf_fields [simp]:
  "ActiveRequests (CancelHandleOf g s) = ActiveRequests s"
  "PendingRequests (CancelHandleOf g s) = PendingRequests s"
  "CancelledRequestIds (CancelHandleOf g s) = CancelledRequestIds s"
  "TimeoutHandles (CancelHandleOf g s) = TimeoutHandles s"
  "MaxConcurrentLoads (CancelHandleOf g s) = MaxConcurrentLoads s"
  "LoadTimeoutSeconds (CancelHandleOf g s) = LoadTimeoutSeconds s"
  "TotalRequestCount (CancelHandleOf g s) = TotalRequestCount s"
  "CompletedRequestCount (CancelHandleOf g s) = CompletedRequestCount s"
  "FailedRequestCount (CancelHandleOf g s) = FailedRequestCount s"
  "CancelledRequestCount (CancelHandleOf g s) = CancelledRequestCount s"
  "WidgetClassCache (CancelHandleOf g s) = WidgetClassCache s"
  by (simp_all add: CancelHandleOf_def)

lemma ClearTimeoutOf_fields [simp]:
  "ActiveRequests (ClearTimeoutOf e g s) = ActiveRequests s"
  "PendingRequests (ClearTimeoutOf e g s) = PendingRequests s"
  "CancelledRequestIds (ClearTimeoutOf e g s) = CancelledRequestIds s"
  "ActiveHandles (ClearTimeoutOf e g s) = ActiveHandles s"
  "MaxConcurrentLoads (ClearTimeoutOf e g s) = MaxConcurrentLoads s"
  "LoadTimeoutSeconds (ClearTimeoutOf e g s) = LoadTimeoutSeconds s"
  "TotalRequestCount (ClearTimeoutOf e g s) = TotalRequestCount s"
  "CompletedRequestCount (ClearTimeoutOf e g s) = CompletedRequestCount s"
  "FailedRequestCount (ClearTimeoutOf e g s) = FailedRequestCount s"
  "CancelledRequestCount (ClearTimeoutOf e g s) = CancelledRequestCount s"
  "WidgetClassCache (ClearTimeoutOf e g s) = WidgetClassCache s"
  by (simp_all add: ClearTimeoutOf_def Let_def)

lemma RemoveFirstById_MarkCancelledById [simp]:
  "RemoveFirstById g (MarkCancelledById g xs) = RemoveFirstById g xs"
  by (induction xs) auto

lemma FindById_MarkCancelledById:
  "FindById g xs = Some r \<Longrightarrow> FindById g (MarkCancelledById g xs) = Some (r\<lparr>bCancelled := True\<rparr>)"
  by (induction xs) (auto split: if_splits)

text \<open>
  \<open>TimedOut\<close> is the state in which \<^verbatim>\<open>HandleLoadTimeout\<close> calls \<^verbatim>\<open>ProcessNextRequest\<close>: the body
  of the function up to that call, for the request found in the active list.
\<close>

definition TimedOut :: "guid \<Rightarrow> request \<Rightarrow> manager \<Rightarrow> manager" where
  "TimedOut g Request s =
     (let s1 = CancelHandleOf g s;
          s2 = ExecuteLoadFailed Request ''Load timeout'' s1;
          s3 = s2\<lparr>ActiveRequests := MarkCancelledById g (ActiveRequests s2)\<rparr>;
          s4 = s3\<lparr>CancelledRequestIds := SetAdd g (CancelledRequestIds s3)\<rparr>;
          s5 = s4\<lparr>ActiveRequests := RemoveFirstById g (ActiveRequests s4)\<rparr>;
          s6 = s5\<lparr>FailedRequestCount := FailedRequestCount s5 + 1\<rparr>
      in s6\<lparr>TimeoutHandles := TimeoutHandles s6 - {g}\<rparr>)"

lemma HandleLoadTimeout_unfold:
  "FindById g (ActiveRequests s) = Some r
   \<Longrightarrow> HandleLoadTimeout e g s = ProcessNextRequest e (TimedOut g r s)"
  by (simp add: HandleLoadTimeout_def TimedOut_def Let_def)

lemma TimedOut_fields [simp]:
  "ActiveRequests (TimedOut g r s) = RemoveFirstById g (ActiveRequests s)"
  "PendingRequests (TimedOut g r s) = PendingRequests s"
  "CancelledRequestIds (TimedOut g r s) = SetAdd g (CancelledRequestIds s)"
  "MaxConcurrentLoads (TimedOut g r s) = MaxConcurrentLoads s"
  "TotalRequestCount (TimedOut g r s) = TotalRequestCount s"
  "CompletedRequestCount (TimedOut g r s) = CompletedRequestCount s"
  "FailedRequestCount (TimedOut g r s) = FailedRequestCount s + 1"
  "CancelledRequestCount (TimedOut g r s) = CancelledRequestCount s"
  by (simp_all add: TimedOut_def Let_def)



lemma PendingRequests_suffix:
  "\<exists>k. PendingRequests (ProcessNextRequest e s) = drop k (PendingRequests s)"
proof (rule ProcessNextRequest_rule [where Q = "\<lambda>s res. \<exists>k. PendingRequests res = drop k (PendingRequests s)"])
  fix s :: manager
  show "\<exists>k. PendingRequests s = drop k (PendingRequests s)" by (metis drop0)
next
  fix s res :: manager and n rest
  assume "PendingRequests s = n # rest"
    "\<exists>k. PendingRequests res = drop k (PendingRequests (s\<lparr>PendingRequests := rest\<rparr>))"
  then obtain k where "PendingRequests res = drop (Suc k) (PendingRequests s)" by auto
  then show "\<exists>k. PendingRequests res = drop k (PendingRequests s)" by blast
next
  fix s s' res :: manager and n rest
  assume "PendingRequests s = n # rest"
    "SyncFinish e n (s\<lparr>PendingRequests := rest, ActiveRequests := ActiveRequests s @ [n]\<rparr>) = Some s'"
    "\<exists>k. PendingRequests res = drop k (PendingRequests s')"
  then obtain k where "PendingRequests res = drop (Suc k) (PendingRequests s)"
    by (auto dest!: SyncFinish_fields(1))
  then show "\<exists>k. PendingRequests res = drop k (PendingRequests s)" by blast
next
  fix s :: manager and n rest
  let ?t = "s\<lparr>PendingRequests := rest, ActiveRequests := ActiveRequests s @ [n]\<rparr>"
  assume "PendingRequests s = n # rest"
  then have "PendingRequests (AsyncStart e n ?t) = drop (Suc 0) (PendingRequests s)" by simp
  then show "\<exists>k. PendingRequests (AsyncStart e n ?t) = drop k (PendingRequests s)" by blast
qed

definition CompletedEffects :: "request \<Rightarrow> widget \<Rightarrow> effect list" where
  "CompletedEffects r w =
     (case OnLoadCompleted r of
        UnboundCompleted \<Rightarrow> []
      | UserCompleted h \<Rightarrow> [LoadCompletedExecuted (RequestId r) (UserCompleted h) w]
      | PreloadCompleted p \<Rightarrow>
          [LoadCompletedExecuted (RequestId r) (PreloadCompleted p) w, RemoveFromParentCalled w])"

definition FailedEffects :: "request \<Rightarrow> string \<Rightarrow> effect list" where
  "FailedEffects r m =
     (if OnLoadFailed r = UnboundFailed then []
      else [LoadFailedExecuted (RequestId r) (OnLoadFailed r) m])"

lemma Effects_ExecuteLoadCompleted:
  "Effects (ExecuteLoadCompleted e r w s) = Effects s @ CompletedEffects r w"
  by (cases "OnLoadCompleted r") (simp_all add: ExecuteLoadCompleted_def CompletedEffects_def Let_def)

lemma Effects_ExecuteLoadFailed:
  "Effects (ExecuteLoadFailed r m s) = Effects s @ FailedEffects r m"
  by (cases "OnLoadFailed r") (simp_all add: ExecuteLoadFailed_def FailedEffects_def)

lemma callbacks_CompletedEffects:
  "filter (IsCallbackOf (RequestId r)) (CompletedEffects r w) =
     (if OnLoadCompleted r = UnboundCompleted then []
      else [LoadCompletedExecuted (RequestId r) (OnLoadCompleted r) w])"
  by (cases "OnLoadCompleted r") (simp_all add: CompletedEffects_def)

lemma callbacks_FailedEffects:
  "filter (IsCallbackOf (RequestId r)) (FailedEffects r m) =
     (if OnLoadFailed r = UnboundFailed then []
      else [LoadFailedExecuted (RequestId r) (OnLoadFailed r) m])"
  by (simp add: FailedEffects_def)

text \<open>
  What \<^verbatim>\<open>CreateAndSetupWidget\<close> returns for a request and what it calls, and the effects of
  the two delegates.
\<close>

definition CreatedWidgetOf :: "env \<Rightarrow> cls \<Rightarrow> request \<Rightarrow> widget option" where
  "CreatedWidgetOf e c r =
     (if WorldContextValid e \<and> HasUINavPC e
      then GoToWidget e c (bRemoveParent r) (bDestroyParent r) (ZOrder r) else None)"

definition FactoryEffects :: "env \<Rightarrow> cls \<Rightarrow> request \<Rightarrow> effect list" where
  "FactoryEffects e c r =
     (if WorldContextValid e \<and> HasUINavPC e
      then [GoToWidgetCalled c (bRemoveParent r) (bDestroyParent r) (ZOrder r)] else [])"

lemma CreateAndSetupWidget_eq:
  "CreateAndSetupWidget e c r s =
     (CreatedWidgetOf e c r, s\<lparr>Effects := Effects s @ FactoryEffects e c r\<rparr>)"
  by (simp add: CreateAndSetupWidget_def CreatedWidgetOf_def FactoryEffects_def)

text \<open>The request built by the constructor and the assignments of \<^verbatim>\<open>LoadWidgetAsync\<close>.\<close>

definition NewRequestOf ::
  "env \<Rightarrow> softptr \<Rightarrow> completed_delegate \<Rightarrow> failed_delegate \<Rightarrow> bool \<Rightarrow> bool \<Rightarrow> int \<Rightarrow> int \<Rightarrow> request" where
  "NewRequestOf e p oc ofl rp dp z pr =
     \<lparr> RequestId = NewGuid e, WidgetClass = p, bRemoveParent = rp, bDestroyParent = dp,
       ZOrder = z, OnLoadCompleted = oc, OnLoadFailed = ofl, RequestTime = ToFloat (PlatformSeconds e),
       bCancelled = False, Priority = pr \<rparr>"

lemma LoadWidgetAsync_free_slot:
  assumes "\<not> IsNull p" "int (length (ActiveRequests s)) < MaxConcurrentLoads s"
  shows "LoadWidgetAsync e p oc ofl rp dp z pr s =
     (NewGuid e, StartLoadingWidget e (NewRequestOf e p oc ofl rp dp z pr)
        (s\<lparr>TotalRequestCount := TotalRequestCount s + 1,
           ActiveRequests := ActiveRequests s @ [NewRequestOf e p oc ofl rp dp z pr]\<rparr>))"
  using assms by (simp add: LoadWidgetAsync_def NewRequestOf_def Let_def)

lemma LoadWidgetAsync_no_slot:
  assumes "\<not> IsNull p" "\<not> int (length (ActiveRequests s)) < MaxConcurrentLoads s"
  shows "LoadWidgetAsync e p oc ofl rp dp z pr s =
     (NewGuid e, s\<lparr>TotalRequestCount := TotalRequestCount s + 1,
           PendingRequests := Sort (PendingRequests s @ [NewRequestOf e p oc ofl rp dp z pr])\<rparr>)"
  using assms by (simp add: LoadWidgetAsync_def NewRequestOf_def Let_def)

text \<open>
  \<open>CacheHitDone\<close> is the state in which \<^verbatim>\<open>StartLoadingWidget\<close> hands over to
  \<^verbatim>\<open>ProcessNextRequest\<close> when the class of the request is in the cache.
\<close>

definition CacheHitDone :: "env \<Rightarrow> cls \<Rightarrow> request \<Rightarrow> manager \<Rightarrow> manager" where
  "CacheHitDone e c r s =
     (case CreatedWidgetOf e c r of
        Some w \<Rightarrow>
          (ExecuteLoadCompleted e r w
             (s\<lparr>Effects := Effects s @ [LoadStarted (RequestId r)] @ FactoryEffects e c r\<rparr>))
          \<lparr>CompletedRequestCount := CompletedRequestCount s + 1,
           ActiveRequests := RemoveFirstById (RequestId r) (ActiveRequests s)\<rparr>
      | None \<Rightarrow>
          (ExecuteLoadFailed r ''Failed to create widget from cached class''
             (s\<lparr>Effects := Effects s @ [LoadStarted (RequestId r)] @ FactoryEffects e c r\<rparr>))
          \<lparr>FailedRequestCount := FailedRequestCount s + 1,
           ActiveRequests := RemoveFirstById (RequestId r) (ActiveRequests s)\<rparr>)"

lemma SyncFinish_cache_hit:
  assumes "WidgetClassCache s (WidgetClass r) = Some c"
  shows "SyncFinish e r s = Some (CacheHitDone e c r s)"
  using assms
  by (simp add: SyncFinish_def CacheHitDone_def GetFromWidgetClassCache_def CreateAndSetupWidget_eq
      Let_def split: option.splits)

lemma StartLoadingWidget_cache_hit:
  assumes "WidgetClassCache s (WidgetClass r) = Some c"
  shows "StartLoadingWidget e r s = ProcessNextRequest e (CacheHitDone e c r s)"
  by (simp add: StartLoadingWidget_unfold SyncFinish_cache_hit [OF assms])

lemma CacheHitDone_fields [simp]:
  "PendingRequests (CacheHitDone e c r s) = PendingRequests s"
  "CancelledRequestIds (CacheHitDone e c r s) = CancelledRequestIds s"
  "TotalRequestCount (CacheHitDone e c r s) = TotalRequestCount s"
  "ActiveRequests (CacheHitDone e c r s) = RemoveFirstById (RequestId r) (ActiveRequests s)"
  "CompletedRequestCount (CacheHitDone e c r s) =
     CompletedRequestCount s + (if CreatedWidgetOf e c r = None then 0 else 1)"
  "FailedRequestCount (CacheHitDone e c r s) =
     FailedRequestCount s + (if CreatedWidgetOf e c r = None then 1 else 0)"
  "Effects (CacheHitDone e c r s) =
     Effects s @ [LoadStarted (RequestId r)] @ FactoryEffects e c r @
       (case CreatedWidgetOf e c r of
          Some w \<Rightarrow> CompletedEffects r w
        | None \<Rightarrow> FailedEffects r ''Failed to create widget from cached class'')"
  by (simp_all add: CacheHitDone_def Effects_ExecuteLoadCompleted Effects_ExecuteLoadFailed
      split: option.splits)

lemma AdmittedOnly_not_for:
  assumes "AdmittedOnly s new" "g \<notin> RequestId ` set (PendingRequests s)" "EffectRequest ef = Some g"
  shows "ef \<notin> set new"
  using assms by (auto simp: AdmittedOnly_def)

text \<open>
  \<open>Discarded\<close> is the state in which \<^verbatim>\<open>OnWidgetClassLoaded\<close> calls \<^verbatim>\<open>ProcessNextRequest\<close> for a
  request that was cancelled: handle and timer entries cleared, the request removed.
\<close>

definition Discarded :: "env \<Rightarrow> request \<Rightarrow> manager \<Rightarrow> manager" where
  "Discarded e Request s =
     (let s1 = s\<lparr>ActiveHandles := ActiveHandles s - {RequestId Request}\<rparr>;
          s2 = ClearTimeoutOf e (RequestId Request) s1
      in s2\<lparr>ActiveRequests := RemoveFirstById (RequestId Request) (ActiveRequests s2)\<rparr>)"

lemma Discarded_effects:
  "\<exists>pre. Effects (Discarded e r s) = Effects s @ pre \<and> filter (IsCallbackOf g) pre = []"
  by (auto simp: Discarded_def ClearTimeoutOf_def Let_def)

lemma StartLoadingWidget_keeps:
  "MaxConcurrentLoads (StartLoadingWidget e r s) = MaxConcurrentLoads s
   \<and> CancelledRequestIds (StartLoadingWidget e r s) = CancelledRequestIds s
   \<and> CancelledRequestCount (StartLoadingWidget e r s) = CancelledRequestCount s
   \<and> TotalRequestCount (StartLoadingWidget e r s) = TotalRequestCount s
   \<and> LoadTimeoutSeconds (StartLoadingWidget e r s) = LoadTimeoutSeconds s"
  using ProcessNextRequest_keeps
  by (auto simp: StartLoadingWidget_unfold split: option.splits dest!: SyncFinish_facts)

lemma IsValid_not_IsNull: "IsValid e p \<Longrightarrow> \<not> IsNull p"
  by (auto simp: IsValid_def SoftGet_def)

section \<open>Invariants of the scheduler\<close>

text \<open>
  Two conditions on a state: the active list is within the limit; and no slot is free
  while a request is pending. \<open>LowersBelowActive\<close> holds of a call of
  \<^verbatim>\<open>SetMaxConcurrentLoads\<close> whose (clamped) limit is below the number of active requests;
  \<open>reachable_unlowered\<close> are the states reached without such a call.
\<close>

definition WithinLimit :: "manager \<Rightarrow> bool" where
  "WithinLimit s = (int (length (ActiveRequests s)) \<le> MaxConcurrentLoads s)"

definition NoFreeSlotWhilePending :: "manager \<Rightarrow> bool" where
  "NoFreeSlotWhilePending s =
     (PendingRequests s = [] \<or> MaxConcurrentLoads s \<le> int (length (ActiveRequests s)))"

definition LowersBelowActive :: "manager \<Rightarrow> call \<Rightarrow> bool" where
  "LowersBelowActive s c =
     (case c of CallSetMaxConcurrentLoads n \<Rightarrow> max 1 n < int (length (ActiveRequests s))
      | _ \<Rightarrow> False)"

inductive reachable_unlowered :: "manager \<Rightarrow> bool" where
  unlowered_init: "reachable_unlowered NewManager"
| unlowered_step: "reachable_unlowered s \<Longrightarrow> \<not> LowersBelowActive s c \<Longrightarrow> reachable_unlowered (step e c s)"

lemma length_RemoveFirstById_le: "length (RemoveFirstById g xs) \<le> length xs"
  by (simp add: length_RemoveFirstById)

lemma length_RemoveFirstById_ge: "length xs \<le> length (RemoveFirstById g xs) + 1"
  by (cases "FindById g xs") (simp_all add: length_RemoveFirstById)

lemma ProcessNextRequest_bound:
  "int (length (ActiveRequests s)) \<le> MaxConcurrentLoads s
   \<Longrightarrow> int (length (ActiveRequests (ProcessNextRequest e s))) \<le> MaxConcurrentLoads s"
  by (rule ProcessNextRequest_rule [where Q = "\<lambda>s res. int (length (ActiveRequests s)) \<le> MaxConcurrentLoads s
   \<longrightarrow> int (length (ActiveRequests res)) \<le> MaxConcurrentLoads s", THEN mp])
     (auto dest!: SyncFinish_facts simp: length_RemoveFirstById_snoc)

lemma ProcessNextRequest_no_stall:
  "PendingRequests s = [] \<or> MaxConcurrentLoads s \<le> int (length (ActiveRequests s)) + 1
   \<Longrightarrow> PendingRequests (ProcessNextRequest e s) = []
       \<or> MaxConcurrentLoads s \<le> int (length (ActiveRequests (ProcessNextRequest e s)))"
  by (rule ProcessNextRequest_rule [where Q = "\<lambda>s res. (PendingRequests s = [] \<or> MaxConcurrentLoads s \<le> int (length (ActiveRequests s)) + 1)
   \<longrightarrow> (PendingRequests res = [] \<or> MaxConcurrentLoads s \<le> int (length (ActiveRequests res)))", THEN mp])
     (auto dest!: SyncFinish_facts simp: length_RemoveFirstById_snoc)

lemma WithinLimit_ProcessNextRequest:
  "WithinLimit s \<Longrightarrow> WithinLimit (ProcessNextRequest e s)"
  using ProcessNextRequest_bound [of s e] ProcessNextRequest_keeps [of e s]
  by (simp add: WithinLimit_def)

lemma NoFreeSlot_ProcessNextRequest:
  "PendingRequests s = [] \<or> MaxConcurrentLoads s \<le> int (length (ActiveRequests s)) + 1
   \<Longrightarrow> NoFreeSlotWhilePending (ProcessNextRequest e s)"
  using ProcessNextRequest_no_stall [of s e] ProcessNextRequest_keeps [of e s]
  by (simp add: NoFreeSlotWhilePending_def)

lemma WithinLimit_StartLoadingWidget:
  "WithinLimit s \<Longrightarrow> WithinLimit (StartLoadingWidget e r s)"
proof (cases "SyncFinish e r s")
  case None
  then show "WithinLimit s \<Longrightarrow> ?thesis"
    by (simp add: StartLoadingWidget_unfold WithinLimit_def)
next
  case (Some s')
  assume w: "WithinLimit s"
  have "WithinLimit s'"
    using SyncFinish_facts [OF Some] w length_RemoveFirstById_le [of "RequestId r" "ActiveRequests s"]
    by (simp add: WithinLimit_def)
  then show ?thesis using Some by (simp add: StartLoadingWidget_unfold WithinLimit_ProcessNextRequest)
qed

lemma StartLoadingWidget_pending_empty:
  "PendingRequests s = [] \<Longrightarrow> PendingRequests (StartLoadingWidget e r s) = []"
proof (cases "SyncFinish e r s")
  case None
  then show "PendingRequests s = [] \<Longrightarrow> ?thesis" by (simp add: StartLoadingWidget_unfold)
next
  case (Some s')
  assume p: "PendingRequests s = []"
  then have "PendingRequests s' = []" using SyncFinish_facts [OF Some] by simp
  then have "ProcessNextRequest e s' = s'" by (simp add: ProcessNextRequest_idle)
  then show ?thesis using Some \<open>PendingRequests s' = []\<close> by (simp add: StartLoadingWidget_unfold)
qed

text \<open>
  The states in which the calls hand over to \<^verbatim>\<open>ProcessNextRequest\<close>; \<open>CancelledActive\<close> is the
  body of \<^verbatim>\<open>CancelLoadRequest\<close> for an active request up to that call.
\<close>

lemma OnWidgetClassLoaded_hand_over:
  "\<exists>s'. OnWidgetClassLoaded e r s = ProcessNextRequest e s'
        \<and> PendingRequests s' = PendingRequests s
        \<and> ActiveRequests s' = RemoveFirstById (RequestId r) (ActiveRequests s)
        \<and> MaxConcurrentLoads s' = MaxConcurrentLoads s
        \<and> CancelledRequestIds s' = CancelledRequestIds s"
  by (auto simp: OnWidgetClassLoaded_def Let_def CreateAndSetupWidget_eq
      split: option.splits)

definition CancelledActive :: "env \<Rightarrow> guid \<Rightarrow> manager \<Rightarrow> manager" where
  "CancelledActive e g s =
     (let s1 = CancelHandleOf g s;
          s2 = ClearTimeoutOf e g s1;
          s3 = s2\<lparr>ActiveRequests := MarkCancelledById g (ActiveRequests s2)\<rparr>;
          s4 = s3\<lparr>CancelledRequestIds := SetAdd g (CancelledRequestIds s3)\<rparr>;
          s5 = s4\<lparr>ActiveRequests := RemoveFirstById g (ActiveRequests s4)\<rparr>
      in s5\<lparr>CancelledRequestCount := CancelledRequestCount s5 + 1\<rparr>)"

lemma CancelledActive_fields [simp]:
  "ActiveRequests (CancelledActive e g s) = RemoveFirstById g (ActiveRequests s)"
  "PendingRequests (CancelledActive e g s) = PendingRequests s"
  "CancelledRequestIds (CancelledActive e g s) = SetAdd g (CancelledRequestIds s)"
  "MaxConcurrentLoads (CancelledActive e g s) = MaxConcurrentLoads s"
  by (simp_all add: CancelledActive_def Let_def)

lemma CancelLoadRequest_cases:
  "snd (CancelLoadRequest e g s) =
     (if \<not> GuidIsValid g then s
      else if FindById g (ActiveRequests s) \<noteq> None then ProcessNextRequest e (CancelledActive e g s)
      else if FindById g (PendingRequests s) \<noteq> None
           then s\<lparr>PendingRequests := RemoveFirstById g (PendingRequests s),
                  CancelledRequestIds := SetAdd g (CancelledRequestIds s),
                  CancelledRequestCount := CancelledRequestCount s + 1\<rparr>
      else s)"
  by (auto simp: CancelLoadRequest_def CancelledActive_def Let_def split: option.splits)

lemma foldl_CancelAllActiveStep_fields [simp]:
  "ActiveRequests (foldl (CancelAllActiveStep e) s rs) = ActiveRequests s"
  "PendingRequests (foldl (CancelAllActiveStep e) s rs) = PendingRequests s"
  "MaxConcurrentLoads (foldl (CancelAllActiveStep e) s rs) = MaxConcurrentLoads s"
  by (induction rs arbitrary: s; simp add: CancelAllActiveStep_def Let_def)+

lemma foldl_CancelAllPendingStep_fields [simp]:
  "ActiveRequests (foldl CancelAllPendingStep s rs) = ActiveRequests s"
  "PendingRequests (foldl CancelAllPendingStep s rs) = PendingRequests s"
  "MaxConcurrentLoads (foldl CancelAllPendingStep s rs) = MaxConcurrentLoads s"
  by (induction rs arbitrary: s; simp add: CancelAllPendingStep_def)+

lemma CancelAllLoadRequests_fields [simp]:
  "ActiveRequests (CancelAllLoadRequests e s) = []"
  "PendingRequests (CancelAllLoadRequests e s) = []"
  "MaxConcurrentLoads (CancelAllLoadRequests e s) = MaxConcurrentLoads s"
  by (simp_all add: CancelAllLoadRequests_def Let_def)

lemma SetMaxConcurrentLoads_loop_invariant:
  assumes "\<And>s. P s \<Longrightarrow> P (ProcessNextRequest e s)" "P s"
  shows "P (SetMaxConcurrentLoads_loop e s)"
  using assms
proof (induction e s rule: SetMaxConcurrentLoads_loop.induct)
  case (1 e s)
  show ?case
  proof (cases "int (length (ActiveRequests s)) < MaxConcurrentLoads s \<and> 0 < length (PendingRequests s)")
    case True
    then have "SetMaxConcurrentLoads_loop e s = SetMaxConcurrentLoads_loop e (ProcessNextRequest e s)"
      by (subst SetMaxConcurrentLoads_loop.simps) simp
    moreover have "P (ProcessNextRequest e s)" using "1.prems" by blast
    then have "P (SetMaxConcurrentLoads_loop e (ProcessNextRequest e s))"
      using True "1.prems"(1) by (intro "1.IH") blast+
    ultimately show ?thesis by simp
  next
    case False
    have "SetMaxConcurrentLoads_loop e s = s"
      by (subst SetMaxConcurrentLoads_loop.simps) (use False in auto)
    then show ?thesis using "1.prems" by simp
  qed
qed

lemma SetMaxConcurrentLoads_loop_exit:
  "NoFreeSlotWhilePending (SetMaxConcurrentLoads_loop e s)"
proof (induction e s rule: SetMaxConcurrentLoads_loop.induct)
  case (1 e s)
  show ?case
  proof (cases "int (length (ActiveRequests s)) < MaxConcurrentLoads s \<and> 0 < length (PendingRequests s)")
    case True
    then have "SetMaxConcurrentLoads_loop e s = SetMaxConcurrentLoads_loop e (ProcessNextRequest e s)"
      by (subst SetMaxConcurrentLoads_loop.simps) simp
    then show ?thesis using "1.IH" True by simp
  next
    case False
    have "SetMaxConcurrentLoads_loop e s = s"
      by (subst SetMaxConcurrentLoads_loop.simps) (use False in auto)
    then show ?thesis using False by (auto simp: NoFreeSlotWhilePending_def)
  qed
qed

lemma LoadWidgetAsync_cases:
  "snd (LoadWidgetAsync e p oc ofl rp dp z pr s) =
     (if IsNull p then s\<lparr>Effects := Effects s @
                 (if ofl = UnboundFailed then []
                  else [SubmitFailedExecuted ofl ''Invalid widget class provided''])\<rparr>
      else if int (length (ActiveRequests s)) < MaxConcurrentLoads s
      then StartLoadingWidget e (NewRequestOf e p oc ofl rp dp z pr)
        (s\<lparr>TotalRequestCount := TotalRequestCount s + 1,
           ActiveRequests := ActiveRequests s @ [NewRequestOf e p oc ofl rp dp z pr]\<rparr>)
      else s\<lparr>TotalRequestCount := TotalRequestCount s + 1,
           PendingRequests := Sort (PendingRequests s @ [NewRequestOf e p oc ofl rp dp z pr])\<rparr>)"
  by (cases ofl) (simp_all add: LoadWidgetAsync_def NewRequestOf_def Let_def)

lemma PreloadWidgetClass_cases:
  "snd (PreloadWidgetClass e p pr s) =
     (if \<not> IsValid e p \<or> IsWidgetClassCached e s p then s
      else snd (LoadWidgetAsync e p (PreloadCompleted p) (PreloadFailed p) False False 0 pr s))"
  using IsValid_not_IsNull [of e p]
  by (auto simp: PreloadWidgetClass_def LoadWidgetAsync_def Let_def)

lemma WithinLimit_step:
  assumes "WithinLimit s" "\<not> LowersBelowActive s c"
  shows "WithinLimit (step e c s)"
proof (cases c)
  case (CallLoadWidgetAsync p oc ofl rp dp z pr)
  have "WithinLimit (snd (LoadWidgetAsync e p oc ofl rp dp z pr s))" for p oc ofl
    using assms(1)
    by (auto simp: LoadWidgetAsync_cases intro!: WithinLimit_StartLoadingWidget)
       (auto simp: WithinLimit_def)
  then show ?thesis using CallLoadWidgetAsync by simp
next
  case (CallCancelLoadRequest g)
  have "WithinLimit (CancelledActive e g s)"
    using assms(1) length_RemoveFirstById_le [of g "ActiveRequests s"] by (simp add: WithinLimit_def)
  then show ?thesis using CallCancelLoadRequest assms(1)
    by (auto simp: CancelLoadRequest_cases intro!: WithinLimit_ProcessNextRequest)
       (auto simp: WithinLimit_def)
next
  case CallCancelAllLoadRequests
  then show ?thesis using assms(1) by (simp add: WithinLimit_def)
next
  case (CallSetMaxConcurrentLoads n)
  have "WithinLimit (s\<lparr>MaxConcurrentLoads := max 1 n\<rparr>)"
    using assms(2) CallSetMaxConcurrentLoads by (auto simp: WithinLimit_def LowersBelowActive_def)
  then have "WithinLimit (SetMaxConcurrentLoads_loop e (s\<lparr>MaxConcurrentLoads := max 1 n\<rparr>))"
    by (rule SetMaxConcurrentLoads_loop_invariant [rotated]) (rule WithinLimit_ProcessNextRequest)
  then show ?thesis using CallSetMaxConcurrentLoads by (simp add: SetMaxConcurrentLoads_def)
next
  case (CallSetLoadTimeout t)
  then show ?thesis using assms(1) by (simp add: WithinLimit_def SetLoadTimeout_def)
next
  case CallClearCache
  then show ?thesis using assms(1) by (simp add: WithinLimit_def ClearCache_def)
next
  case (CallPreloadWidgetClass p pr)
  have "WithinLimit (snd (LoadWidgetAsync e p oc ofl rp dp z pr s))" for p oc ofl rp dp z
    using assms(1)
    by (auto simp: LoadWidgetAsync_cases intro!: WithinLimit_StartLoadingWidget)
       (auto simp: WithinLimit_def)
  then show ?thesis using CallPreloadWidgetClass assms(1) by (simp add: PreloadWidgetClass_cases)
next
  case (WidgetClassLoaded r)
  obtain s' where s': "OnWidgetClassLoaded e r s = ProcessNextRequest e s'"
    "ActiveRequests s' = RemoveFirstById (RequestId r) (ActiveRequests s)"
    "MaxConcurrentLoads s' = MaxConcurrentLoads s"
    using OnWidgetClassLoaded_hand_over by blast
  have "WithinLimit s'"
    using assms(1) s'(2,3) length_RemoveFirstById_le [of "RequestId r" "ActiveRequests s"]
    by (simp add: WithinLimit_def)
  then show ?thesis using WidgetClassLoaded s'(1) by (simp add: WithinLimit_ProcessNextRequest)
next
  case (LoadTimeout g)
  show ?thesis
  proof (cases "FindById g (ActiveRequests s)")
    case None
    then show ?thesis using LoadTimeout assms(1) by (simp add: HandleLoadTimeout_def)
  next
    case (Some r)
    have "WithinLimit (TimedOut g r s)"
      using assms(1) length_RemoveFirstById_le [of g "ActiveRequests s"] by (simp add: WithinLimit_def)
    then show ?thesis using LoadTimeout HandleLoadTimeout_unfold [OF Some]
      by (simp add: WithinLimit_ProcessNextRequest)
  qed
next
  case CleanupTimer
  then show ?thesis using assms(1) by (simp add: WithinLimit_def CleanupCompletedRequests_def Let_def)
qed

lemma reachable_unlowered_WithinLimit: "reachable_unlowered s \<Longrightarrow> WithinLimit s"
proof (induction rule: reachable_unlowered.induct)
  case unlowered_init
  show ?case by (simp add: WithinLimit_def NewManager_def)
next
  case (unlowered_step s c e)
  then show ?case by (simp add: WithinLimit_step)
qed


lemma RemoveFirstById_nonempty: "RemoveFirstById g xs \<noteq> [] \<Longrightarrow> xs \<noteq> []"
  by (cases xs) auto

lemma NoFreeSlot_LoadWidgetAsync:
  assumes "NoFreeSlotWhilePending s"
  shows "NoFreeSlotWhilePending (snd (LoadWidgetAsync e p oc ofl rp dp z pr s))"
proof (cases "\<not> IsNull p \<and> int (length (ActiveRequests s)) < MaxConcurrentLoads s")
  case True
  then have "PendingRequests s = []" using assms by (auto simp: NoFreeSlotWhilePending_def)
  then have "PendingRequests (snd (LoadWidgetAsync e p oc ofl rp dp z pr s)) = []"
    using True by (simp add: LoadWidgetAsync_cases StartLoadingWidget_pending_empty)
  then show ?thesis by (simp add: NoFreeSlotWhilePending_def)
next
  case False
  then show ?thesis using assms
    by (auto simp: LoadWidgetAsync_cases NoFreeSlotWhilePending_def)
qed

lemma NoFreeSlot_step:
  assumes "NoFreeSlotWhilePending s"
  shows "NoFreeSlotWhilePending (step e c s)"
proof (cases c)
  case (CallLoadWidgetAsync p oc ofl rp dp z pr)
  then show ?thesis using NoFreeSlot_LoadWidgetAsync [OF assms] by simp
next
  case (CallCancelLoadRequest g)
  have a: "NoFreeSlotWhilePending (ProcessNextRequest e (CancelledActive e g s))"
    using assms length_RemoveFirstById_ge [of "ActiveRequests s" g]
    by (intro NoFreeSlot_ProcessNextRequest) (auto simp: NoFreeSlotWhilePending_def)
  have b: "NoFreeSlotWhilePending (s\<lparr>PendingRequests := RemoveFirstById g (PendingRequests s),
                  CancelledRequestIds := SetAdd g (CancelledRequestIds s),
                  CancelledRequestCount := CancelledRequestCount s + 1\<rparr>)"
    using assms RemoveFirstById_nonempty [of g "PendingRequests s"]
    by (auto simp: NoFreeSlotWhilePending_def)
  show ?thesis using CallCancelLoadRequest a b assms by (simp add: CancelLoadRequest_cases)
next
  case CallCancelAllLoadRequests
  then show ?thesis by (simp add: NoFreeSlotWhilePending_def)
next
  case (CallSetMaxConcurrentLoads n)
  then show ?thesis by (simp add: SetMaxConcurrentLoads_def SetMaxConcurrentLoads_loop_exit)
next
  case (CallSetLoadTimeout t)
  then show ?thesis using assms by (simp add: NoFreeSlotWhilePending_def SetLoadTimeout_def)
next
  case CallClearCache
  then show ?thesis using assms by (simp add: NoFreeSlotWhilePending_def ClearCache_def)
next
  case (CallPreloadWidgetClass p pr)
  then show ?thesis using NoFreeSlot_LoadWidgetAsync [OF assms] assms
    by (simp add: PreloadWidgetClass_cases)
next
  case (WidgetClassLoaded r)
  obtain s' where s': "OnWidgetClassLoaded e r s = ProcessNextRequest e s'"
    "PendingRequests s' = PendingRequests s"
    "ActiveRequests s' = RemoveFirstById (RequestId r) (ActiveRequests s)"
    "MaxConcurrentLoads s' = MaxConcurrentLoads s"
    using OnWidgetClassLoaded_hand_over by blast
  have "NoFreeSlotWhilePending (ProcessNextRequest e s')"
    using assms s'(2,3,4) length_RemoveFirstById_ge [of "ActiveRequests s" "RequestId r"]
    by (intro NoFreeSlot_ProcessNextRequest) (auto simp: NoFreeSlotWhilePending_def)
  then show ?thesis using WidgetClassLoaded s'(1) by simp
next
  case (LoadTimeout g)
  show ?thesis
  proof (cases "FindById g (ActiveRequests s)")
    case None
    then show ?thesis using LoadTimeout assms by (simp add: HandleLoadTimeout_def)
  next
    case (Some r)
    have "NoFreeSlotWhilePending (ProcessNextRequest e (TimedOut g r s))"
      using assms length_RemoveFirstById_ge [of "ActiveRequests s" g]
      by (intro NoFreeSlot_ProcessNextRequest) (auto simp: NoFreeSlotWhilePending_def)
    then show ?thesis using LoadTimeout HandleLoadTimeout_unfold [OF Some] by simp
  qed
next
  case CleanupTimer
  then show ?thesis using assms
    by (simp add: NoFreeSlotWhilePending_def CleanupCompletedRequests_def Let_def)
qed

lemma reachable_NoFreeSlot: "reachable s \<Longrightarrow> NoFreeSlotWhilePending s"
proof (induction rule: reachable.induct)
  case reachable_init
  show ?case by (simp add: NoFreeSlotWhilePending_def NewManager_def)
next
  case (reachable_step s e c)
  then show ?case by (simp add: NoFreeSlot_step)
qed

section \<open>The order of the pending queue\<close>

text \<open>
  \<open>request_le a b\<close> says that \<open>b\<close> does not come before \<open>a\<close> under \<^verbatim>\<open>operator<\<close>; the pending
  queue is ordered when it is sorted with respect to it. \<^verbatim>\<open>Sort\<close> produces such a list, and
  removing requests keeps the order.
\<close>

definition request_le :: "request \<Rightarrow> request \<Rightarrow> bool" where
  "request_le a b = (\<not> request_less b a)"

definition PendingSorted :: "manager \<Rightarrow> bool" where
  "PendingSorted s = sorted_wrt request_le (PendingRequests s)"

lemma request_le_trans: "request_le a b \<Longrightarrow> request_le b c \<Longrightarrow> request_le a c"
  by (auto simp: request_le_def request_less_def split: if_splits)

lemma request_less_le: "request_less a b \<Longrightarrow> request_le a b"
  by (auto simp: request_le_def request_less_def split: if_splits)

lemma not_less_le: "\<not> request_less a b \<Longrightarrow> request_le b a"
  by (simp add: request_le_def)

lemma set_SortInsert [simp]: "set (SortInsert x ys) = insert x (set ys)"
  by (induction ys) auto

lemma sorted_SortInsert:
  "sorted_wrt request_le ys \<Longrightarrow> sorted_wrt request_le (SortInsert x ys)"
proof (induction ys)
  case Nil
  show ?case by simp
next
  case (Cons y ys)
  show ?case
  proof (cases "request_less x y")
    case True
    have "request_le x z" if "z \<in> set ys" for z
      using that Cons.prems True by (auto intro: request_le_trans request_less_le)
    then show ?thesis using True Cons.prems by (auto intro: request_less_le)
  next
    case False
    then show ?thesis using Cons by (auto intro: not_less_le)
  qed
qed

lemma sorted_Sort: "sorted_wrt request_le (Sort xs)"
  unfolding Sort_def by (induction xs) (simp_all add: sorted_SortInsert)

lemma set_Sort [simp]: "set (Sort xs) = set xs"
  unfolding Sort_def by (induction xs) simp_all

lemma sorted_wrt_RemoveFirstById:
  "sorted_wrt P xs \<Longrightarrow> sorted_wrt P (RemoveFirstById g xs)"
proof (induction xs)
  case Nil
  show ?case by simp
next
  case (Cons x xs)
  have "set (RemoveFirstById g xs) \<subseteq> set xs" for xs :: "request list"
    by (induction xs) auto
  then show ?case using Cons by auto
qed

lemma sorted_wrt_drop': "sorted_wrt P xs \<Longrightarrow> sorted_wrt P (drop k xs)"
  by (metis append_take_drop_id sorted_wrt_append)

lemma PendingSorted_ProcessNextRequest:
  "PendingSorted s \<Longrightarrow> PendingSorted (ProcessNextRequest e s)"
  using PendingRequests_suffix [of e s] by (auto simp: PendingSorted_def sorted_wrt_drop')

lemma StartLoadingWidget_suffix:
  "\<exists>k. PendingRequests (StartLoadingWidget e r s) = drop k (PendingRequests s)"
proof (cases "SyncFinish e r s")
  case None
  then have "PendingRequests (StartLoadingWidget e r s) = drop 0 (PendingRequests s)"
    by (simp add: StartLoadingWidget_unfold)
  then show ?thesis by blast
next
  case (Some s')
  then show ?thesis
    using PendingRequests_suffix [of e s'] SyncFinish_facts [OF Some]
    by (simp add: StartLoadingWidget_unfold)
qed

lemma PendingSorted_StartLoadingWidget:
  "PendingSorted s \<Longrightarrow> PendingSorted (StartLoadingWidget e r s)"
  using StartLoadingWidget_suffix [of e r s] by (auto simp: PendingSorted_def sorted_wrt_drop')

lemma PendingSorted_LoadWidgetAsync:
  "PendingSorted s \<Longrightarrow> PendingSorted (snd (LoadWidgetAsync e p oc ofl rp dp z pr s))"
  by (auto simp: LoadWidgetAsync_cases intro!: PendingSorted_StartLoadingWidget)
     (auto simp: PendingSorted_def sorted_Sort)

lemma PendingSorted_step:
  assumes "PendingSorted s"
  shows "PendingSorted (step e c s)"
proof (cases c)
  case (CallLoadWidgetAsync p oc ofl rp dp z pr)
  then show ?thesis using PendingSorted_LoadWidgetAsync [OF assms] by simp
next
  case (CallCancelLoadRequest g)
  have "PendingSorted (CancelledActive e g s)" using assms by (simp add: PendingSorted_def)
  then have "PendingSorted (ProcessNextRequest e (CancelledActive e g s))"
    by (rule PendingSorted_ProcessNextRequest)
  then show ?thesis using CallCancelLoadRequest assms
    by (auto simp: CancelLoadRequest_cases)
       (auto simp: PendingSorted_def sorted_wrt_RemoveFirstById)
next
  case CallCancelAllLoadRequests
  then show ?thesis by (simp add: PendingSorted_def)
next
  case (CallSetMaxConcurrentLoads n)
  have "PendingSorted (s\<lparr>MaxConcurrentLoads := max 1 n\<rparr>)" using assms by (simp add: PendingSorted_def)
  then have "PendingSorted (SetMaxConcurrentLoads_loop e (s\<lparr>MaxConcurrentLoads := max 1 n\<rparr>))"
    by (rule SetMaxConcurrentLoads_loop_invariant [rotated]) (rule PendingSorted_ProcessNextRequest)
  then show ?thesis using CallSetMaxConcurrentLoads by (simp add: SetMaxConcurrentLoads_def)
next
  case (CallSetLoadTimeout t)
  then show ?thesis using assms by (simp add: PendingSorted_def SetLoadTimeout_def)
next
  case CallClearCache
  then show ?thesis using assms by (simp add: PendingSorted_def ClearCache_def)
next
  case (CallPreloadWidgetClass p pr)
  then show ?thesis using PendingSorted_LoadWidgetAsync [OF assms] assms
    by (simp add: PreloadWidgetClass_cases)
next
  case (WidgetClassLoaded r)
  obtain s' where s': "OnWidgetClassLoaded e r s = ProcessNextRequest e s'"
    "PendingRequests s' = PendingRequests s"
    using OnWidgetClassLoaded_hand_over by blast
  have "PendingSorted s'" using assms s'(2) by (simp add: PendingSorted_def)
  then show ?thesis using WidgetClassLoaded s'(1) by (simp add: PendingSorted_ProcessNextRequest)
next
  case (LoadTimeout g)
  show ?thesis
  proof (cases "FindById g (ActiveRequests s)")
    case None
    then show ?thesis using LoadTimeout assms by (simp add: HandleLoadTimeout_def)
  next
    case (Some r)
    have "PendingSorted (TimedOut g r s)" using assms by (simp add: PendingSorted_def)
    then show ?thesis using LoadTimeout HandleLoadTimeout_unfold [OF Some]
      by (simp add: PendingSorted_ProcessNextRequest)
  qed
next
  case CleanupTimer
  then show ?thesis using assms by (simp add: PendingSorted_def CleanupCompletedRequests_def Let_def)
qed

lemma reachable_PendingSorted: "reachable s \<Longrightarrow> PendingSorted s"
proof (induction rule: reachable.induct)
  case reachable_init
  show ?case by (simp add: PendingSorted_def NewManager_def)
next
  case (reachable_step s e c)
  then show ?case by (simp add: PendingSorted_step)
qed

text \<open>
  \<open>StartedIds\<close> are the ids of the requests started (admitted) by a list of effects, in
  order. A request is \<open>Alive\<close> when \<^verbatim>\<open>ProcessNextRequest\<close> does not skip it. \<open>AdmitsPrefix s res\<close>
  says that between \<open>s\<close> and \<open>res\<close> a prefix of the pending queue of \<open>s\<close> was taken and exactly
  its live requests were started, in queue order.
\<close>

fun StartedIds :: "effect list \<Rightarrow> guid list" where
  "StartedIds [] = []"
| "StartedIds (LoadStarted g # efs) = g # StartedIds efs"
| "StartedIds (ef # efs) = StartedIds efs"

lemma StartedIds_append [simp]: "StartedIds (xs @ ys) = StartedIds xs @ StartedIds ys"
  by (induction xs rule: StartedIds.induct) simp_all

lemma StartedIds_mem: "LoadStarted g \<in> set efs \<longleftrightarrow> g \<in> set (StartedIds efs)"
  by (induction efs rule: StartedIds.induct) auto

lemma StartedIds_split:
  "StartedIds efs = P @ a # R
   \<Longrightarrow> \<exists>xs ys. efs = xs @ LoadStarted a # ys \<and> StartedIds xs = P \<and> StartedIds ys = R"
proof (induction efs arbitrary: P rule: StartedIds.induct)
  case 1
  then show ?case by simp
next
  case (2 g efs)
  show ?case
  proof (cases P)
    case Nil
    with 2 have "LoadStarted g # efs = [] @ LoadStarted a # efs \<and> StartedIds [] = P \<and> StartedIds efs = R"
      by simp
    then show ?thesis by blast
  next
    case (Cons p P')
    with 2 have "StartedIds efs = P' @ a # R" "g = p" by simp_all
    from "2.IH" [OF this(1)] obtain xs ys where
      "efs = xs @ LoadStarted a # ys" "StartedIds xs = P'" "StartedIds ys = R" by blast
    then have "LoadStarted g # efs = (LoadStarted g # xs) @ LoadStarted a # ys
        \<and> StartedIds (LoadStarted g # xs) = P \<and> StartedIds ys = R"
      using Cons \<open>g = p\<close> by simp
    then show ?thesis by blast
  qed
qed (auto, (metis append_Cons StartedIds.simps)+)


definition Alive :: "manager \<Rightarrow> request \<Rightarrow> bool" where
  "Alive s n = (\<not> (bCancelled n \<or> RequestId n \<in> set (CancelledRequestIds s)))"

definition AdmitsPrefix :: "manager \<Rightarrow> manager \<Rightarrow> bool" where
  "AdmitsPrefix s res =
     (\<exists>k new. PendingRequests res = drop k (PendingRequests s)
        \<and> CancelledRequestIds res = CancelledRequestIds s
        \<and> Effects res = Effects s @ new
        \<and> StartedIds new = map RequestId (filter (Alive s) (take k (PendingRequests s))))"

lemma AdmitsPrefix_refl: "AdmitsPrefix s s"
  unfolding AdmitsPrefix_def by (rule exI [of _ 0]) simp

lemma Alive_cong: "CancelledRequestIds t = CancelledRequestIds s \<Longrightarrow> Alive t = Alive s"
  by (auto simp: Alive_def fun_eq_iff)

lemma AdmitsPrefix_trans:
  assumes "AdmitsPrefix s t" "AdmitsPrefix t u"
  shows "AdmitsPrefix s u"
proof -
  from assms(1) obtain k1 n1 where 1: "PendingRequests t = drop k1 (PendingRequests s)"
    "CancelledRequestIds t = CancelledRequestIds s" "Effects t = Effects s @ n1"
    "StartedIds n1 = map RequestId (filter (Alive s) (take k1 (PendingRequests s)))"
    unfolding AdmitsPrefix_def by blast
  from assms(2) obtain k2 n2 where 2: "PendingRequests u = drop k2 (PendingRequests t)"
    "CancelledRequestIds u = CancelledRequestIds t" "Effects u = Effects t @ n2"
    "StartedIds n2 = map RequestId (filter (Alive t) (take k2 (PendingRequests t)))"
    unfolding AdmitsPrefix_def by blast
  have tk: "take (k1 + k2) (PendingRequests s)
      = take k1 (PendingRequests s) @ take k2 (drop k1 (PendingRequests s))"
    by (simp add: take_add)
  have "PendingRequests u = drop (k1 + k2) (PendingRequests s)"
    using 1(1) 2(1) by (simp add: add.commute)
  moreover have "CancelledRequestIds u = CancelledRequestIds s" using 1(2) 2(2) by simp
  moreover have "Effects u = Effects s @ (n1 @ n2)" using 1(3) 2(3) by simp
  moreover have "StartedIds (n1 @ n2)
      = map RequestId (filter (Alive s) (take (k1 + k2) (PendingRequests s)))"
    using 1(4) 2(4) 1(1) Alive_cong [OF 1(2)] by (simp add: tk)
  ultimately show ?thesis unfolding AdmitsPrefix_def by blast
qed

lemma AdmitsPrefix_skip:
  assumes "PendingRequests s = n # rest" "\<not> Alive s n"
  shows "AdmitsPrefix s (s\<lparr>PendingRequests := rest\<rparr>)"
  unfolding AdmitsPrefix_def
  by (rule exI [of _ 1], rule exI [of _ "[]"]) (use assms in simp)

lemma AdmitsPrefix_start:
  assumes "PendingRequests s = n # rest" "Alive s n"
    and "PendingRequests t = rest" "CancelledRequestIds t = CancelledRequestIds s"
    and "Effects t = Effects s @ new" "StartedIds new = [RequestId n]"
  shows "AdmitsPrefix s t"
  unfolding AdmitsPrefix_def
  by (rule exI [of _ 1], rule exI [of _ new]) (use assms in simp)

lemma SyncFinish_started:
  assumes "SyncFinish e r s = Some s'"
  shows "\<exists>new. Effects s' = Effects s @ new \<and> StartedIds new = [RequestId r]"
proof (cases "WidgetClassCache s (WidgetClass r)")
  case (Some c)
  have "s' = CacheHitDone e c r s" using assms SyncFinish_cache_hit [OF Some, of e] by simp
  then have "Effects s' = Effects s @ [LoadStarted (RequestId r)] @ FactoryEffects e c r @
       (case CreatedWidgetOf e c r of
          Some w \<Rightarrow> CompletedEffects r w
        | None \<Rightarrow> FailedEffects r ''Failed to create widget from cached class'')"
    by simp
  moreover have "StartedIds ([LoadStarted (RequestId r)] @ FactoryEffects e c r @
       (case CreatedWidgetOf e c r of
          Some w \<Rightarrow> CompletedEffects r w
        | None \<Rightarrow> FailedEffects r ''Failed to create widget from cached class'')) = [RequestId r]"
    by (auto simp: FactoryEffects_def CompletedEffects_def FailedEffects_def
        split: option.splits completed_delegate.splits)
  ultimately show ?thesis by blast
next
  case None
  have "Effects s' = Effects s @ ([LoadStarted (RequestId r)]
          @ (if WorldContextValid e then [TimerSet (RequestId r)] else [])
          @ [AsyncLoadRequested (RequestId r) (WidgetClass r)]
          @ FailedEffects r ''Failed to create streamable handle'')"
    using assms None
    by (auto simp: SyncFinish_def GetFromWidgetClassCache_def Let_def Effects_ExecuteLoadFailed
        split: if_splits)
  moreover have "StartedIds ([LoadStarted (RequestId r)]
          @ (if WorldContextValid e then [TimerSet (RequestId r)] else [])
          @ [AsyncLoadRequested (RequestId r) (WidgetClass r)]
          @ FailedEffects r ''Failed to create streamable handle'') = [RequestId r]"
    by (simp add: FailedEffects_def)
  ultimately show ?thesis by blast
qed

lemma AsyncStart_started:
  "\<exists>new. Effects (AsyncStart e r s) = Effects s @ new \<and> StartedIds new = [RequestId r]"
  by (auto simp: AsyncStart_def Let_def)

lemma AdmitsPrefix_ProcessNextRequest: "AdmitsPrefix s (ProcessNextRequest e s)"
proof (rule ProcessNextRequest_rule [where Q = AdmitsPrefix])
  fix s :: manager
  show "AdmitsPrefix s s" by (rule AdmitsPrefix_refl)
next
  fix s res :: manager and n rest
  assume p: "PendingRequests s = n # rest"
    and c: "bCancelled n \<or> RequestId n \<in> set (CancelledRequestIds s)"
    and r: "AdmitsPrefix (s\<lparr>PendingRequests := rest\<rparr>) res"
  have "\<not> Alive s n" using c by (simp add: Alive_def)
  then have "AdmitsPrefix s (s\<lparr>PendingRequests := rest\<rparr>)" using p by (intro AdmitsPrefix_skip)
  then show "AdmitsPrefix s res" using r by (rule AdmitsPrefix_trans)
next
  fix s s' res :: manager and n rest
  let ?t = "s\<lparr>PendingRequests := rest, ActiveRequests := ActiveRequests s @ [n]\<rparr>"
  assume p: "PendingRequests s = n # rest"
    and nc: "\<not> (bCancelled n \<or> RequestId n \<in> set (CancelledRequestIds s))"
    and sf: "SyncFinish e n ?t = Some s'"
    and r: "AdmitsPrefix s' res"
  obtain new where new: "Effects s' = Effects ?t @ new" "StartedIds new = [RequestId n]"
    using SyncFinish_started [OF sf] by blast
  have "AdmitsPrefix s s'"
    using p nc new SyncFinish_facts [OF sf]
    by (intro AdmitsPrefix_start [where n = n and rest = rest and new = new]) (simp_all add: Alive_def)
  then show "AdmitsPrefix s res" using r by (rule AdmitsPrefix_trans)
next
  fix s :: manager and n rest
  let ?t = "s\<lparr>PendingRequests := rest, ActiveRequests := ActiveRequests s @ [n]\<rparr>"
  assume p: "PendingRequests s = n # rest"
    and nc: "\<not> (bCancelled n \<or> RequestId n \<in> set (CancelledRequestIds s))"
  obtain new where new: "Effects (AsyncStart e n ?t) = Effects ?t @ new" "StartedIds new = [RequestId n]"
    using AsyncStart_started by blast
  show "AdmitsPrefix s (AsyncStart e n ?t)"
    using p nc new
    by (intro AdmitsPrefix_start [where n = n and rest = rest and new = new]) (simp_all add: Alive_def)
qed

lemma AdmitsPrefix_loop: "AdmitsPrefix s (SetMaxConcurrentLoads_loop e s)"
proof (induction e s rule: SetMaxConcurrentLoads_loop.induct)
  case (1 e s)
  show ?case
  proof (cases "int (length (ActiveRequests s)) < MaxConcurrentLoads s \<and> 0 < length (PendingRequests s)")
    case True
    then have "SetMaxConcurrentLoads_loop e s = SetMaxConcurrentLoads_loop e (ProcessNextRequest e s)"
      by (subst SetMaxConcurrentLoads_loop.simps) simp
    moreover have "AdmitsPrefix (ProcessNextRequest e s) (SetMaxConcurrentLoads_loop e (ProcessNextRequest e s))"
      using True by (intro "1.IH") auto
    ultimately show ?thesis
      using AdmitsPrefix_trans [OF AdmitsPrefix_ProcessNextRequest] by simp
  next
    case False
    have "SetMaxConcurrentLoads_loop e s = s"
      by (subst SetMaxConcurrentLoads_loop.simps) (use False in auto)
    then show ?thesis by (simp add: AdmitsPrefix_refl)
  qed
qed

lemma request_less_irrefl: "\<not> request_less a a"
  by (simp add: request_less_def)

lemma AdmitsPrefix_order:
  assumes ap: "AdmitsPrefix s res"
    and sorted: "PendingSorted s"
    and A: "A \<in> set (PendingRequests s)" and B: "B \<in> set (PendingRequests s)"
    and less: "request_less A B"
    and dist: "distinct (map RequestId (PendingRequests s))"
    and alive: "Alive s A"
    and started: "LoadStarted (RequestId B) \<in> set (NewEffects s res)"
  shows "\<exists>xs ys zs. NewEffects s res = xs @ LoadStarted (RequestId A) # ys @ LoadStarted (RequestId B) # zs"
proof -
  let ?pend = "PendingRequests s"
  from ap obtain k new where k: "Effects res = Effects s @ new"
    "StartedIds new = map RequestId (filter (Alive s) (take k ?pend))"
    unfolding AdmitsPrefix_def by blast
  have ne: "NewEffects s res = new" using k(1) by (simp add: NewEffects_def)
  have inj: "inj_on RequestId (set ?pend)" using dist by (simp add: distinct_map)
  from started ne k(2) have "RequestId B \<in> RequestId ` set (filter (Alive s) (take k ?pend))"
    by (simp add: StartedIds_mem)
  then obtain C where C: "C \<in> set (take k ?pend)" "Alive s C" "RequestId C = RequestId B"
    by auto
  have "C \<in> set ?pend" using C(1) by (rule in_set_takeD)
  then have "C = B" using inj B C(3) by (auto dest: inj_onD)
  then have Bin: "B \<in> set (take k ?pend)" and Balive: "Alive s B" using C by simp_all
  from Bin obtain p1 p2 where p: "take k ?pend = p1 @ B # p2" by (auto dest: split_list)
  have whole: "?pend = p1 @ B # (p2 @ drop k ?pend)"
    using p append_take_drop_id [of k ?pend] by (metis append.assoc append_Cons)
  have after: "\<not> request_less x B" if "x \<in> set (p2 @ drop k ?pend)" for x
  proof -
    have "sorted_wrt request_le (p1 @ B # (p2 @ drop k ?pend))"
      using sorted whole by (simp add: PendingSorted_def)
    then have "request_le B x" using that by (auto simp: sorted_wrt_append)
    then show ?thesis by (simp add: request_le_def)
  qed
  have "A \<noteq> B" using less request_less_irrefl by auto
  moreover have "A \<notin> set (p2 @ drop k ?pend)" using after less by blast
  moreover have "A \<in> set (p1 @ B # (p2 @ drop k ?pend))" using A whole by simp
  ultimately have "A \<in> set p1" by auto
  then obtain q1 q2 where q: "p1 = q1 @ A # q2" by (auto dest: split_list)
  have "StartedIds new = map RequestId (filter (Alive s) q1) @ RequestId A #
          (map RequestId (filter (Alive s) q2) @ RequestId B # map RequestId (filter (Alive s) p2))"
    using k(2) p q alive Balive by simp
  from StartedIds_split [OF this] obtain xs rest where
    x: "new = xs @ LoadStarted (RequestId A) # rest"
    "StartedIds rest = map RequestId (filter (Alive s) q2) @ RequestId B # map RequestId (filter (Alive s) p2)"
    by blast
  from StartedIds_split [OF x(2)] obtain ys zs where "rest = ys @ LoadStarted (RequestId B) # zs"
    by blast
  with x(1) ne show ?thesis by blast
qed

text \<open>Up to the hand-over to \<^verbatim>\<open>ProcessNextRequest\<close> no request is started.\<close>

lemma StartedIds_CompletedEffects [simp]: "StartedIds (CompletedEffects r w) = []"
  by (simp add: CompletedEffects_def split: completed_delegate.splits)

lemma StartedIds_FailedEffects [simp]: "StartedIds (FailedEffects r m) = []"
  by (simp add: FailedEffects_def)

lemma StartedIds_FactoryEffects [simp]: "StartedIds (FactoryEffects e c r) = []"
  by (simp add: FactoryEffects_def)

lemma CancelHandleOf_quiet:
  "\<exists>pre. Effects (CancelHandleOf g s) = Effects s @ pre \<and> StartedIds pre = []"
  by (simp add: CancelHandleOf_def)

lemma ClearTimeoutOf_quiet:
  "\<exists>pre. Effects (ClearTimeoutOf e g s) = Effects s @ pre \<and> StartedIds pre = []"
  by (simp add: ClearTimeoutOf_def Let_def)

lemma TimedOut_quiet:
  "\<exists>pre. Effects (TimedOut g r s) = Effects s @ pre \<and> StartedIds pre = []"
proof -
  obtain p1 where "Effects (CancelHandleOf g s) = Effects s @ p1" "StartedIds p1 = []"
    using CancelHandleOf_quiet by blast
  then have "Effects (TimedOut g r s) = Effects s @ (p1 @ FailedEffects r ''Load timeout'')
      \<and> StartedIds (p1 @ FailedEffects r ''Load timeout'') = []"
    by (simp add: TimedOut_def Let_def Effects_ExecuteLoadFailed)
  then show ?thesis by blast
qed

lemma CancelledActive_quiet:
  "\<exists>pre. Effects (CancelledActive e g s) = Effects s @ pre \<and> StartedIds pre = []"
proof -
  obtain p1 where 1: "Effects (CancelHandleOf g s) = Effects s @ p1" "StartedIds p1 = []"
    using CancelHandleOf_quiet by blast
  obtain p2 where 2: "Effects (ClearTimeoutOf e g (CancelHandleOf g s)) = Effects (CancelHandleOf g s) @ p2"
    "StartedIds p2 = []"
    using ClearTimeoutOf_quiet by blast
  have "Effects (CancelledActive e g s) = Effects s @ (p1 @ p2) \<and> StartedIds (p1 @ p2) = []"
    using 1 2 by (simp add: CancelledActive_def Let_def)
  then show ?thesis by blast
qed

lemma OnWidgetClassLoaded_hand_over_quiet:
  "\<exists>s' pre. OnWidgetClassLoaded e r s = ProcessNextRequest e s'
        \<and> PendingRequests s' = PendingRequests s
        \<and> CancelledRequestIds s' = CancelledRequestIds s
        \<and> Effects s' = Effects s @ pre \<and> StartedIds pre = []"
proof -
  let ?s1 = "s\<lparr>ActiveHandles := ActiveHandles s - {RequestId r}\<rparr>"
  let ?s2 = "ClearTimeoutOf e (RequestId r) ?s1"
  obtain p2 where p2: "Effects ?s2 = Effects s @ p2" "StartedIds p2 = []"
    using ClearTimeoutOf_quiet [of e "RequestId r" ?s1] by auto
  show ?thesis
  proof (cases "bCancelled r \<or> RequestId r \<in> set (CancelledRequestIds s)")
    case True
    then have "OnWidgetClassLoaded e r s = ProcessNextRequest e
        (?s2\<lparr>ActiveRequests := RemoveFirstById (RequestId r) (ActiveRequests ?s2)\<rparr>)"
      by (auto simp: OnWidgetClassLoaded_def Let_def)
    then show ?thesis using p2
      by (intro exI [of _ "?s2\<lparr>ActiveRequests := RemoveFirstById (RequestId r) (ActiveRequests ?s2)\<rparr>"]
          exI [of _ p2]) simp
  next
    case False
    show ?thesis
    proof (cases "SoftGet e (WidgetClass r)")
      case None
      let ?s4 = "ExecuteLoadFailed r ''Failed to load widget class'' ?s2"
      let ?s' = "?s4\<lparr>FailedRequestCount := FailedRequestCount ?s4 + 1,
                   ActiveRequests := RemoveFirstById (RequestId r) (ActiveRequests ?s4)\<rparr>"
      have "OnWidgetClassLoaded e r s = ProcessNextRequest e ?s'"
        using False None by (simp add: OnWidgetClassLoaded_def Let_def)
      moreover have "Effects ?s' = Effects s @ (p2 @ FailedEffects r ''Failed to load widget class'')"
        using p2 by (simp add: Effects_ExecuteLoadFailed)
      ultimately show ?thesis using p2(2)
        by (intro exI [of _ ?s'] exI [of _ "p2 @ FailedEffects r ''Failed to load widget class''"]) simp
    next
      case (Some c)
      let ?s4 = "if \<not> IsWidgetClassCached e ?s2 (WidgetClass r)
                 then AddToWidgetClassCache e (WidgetClass r) (Some c) ?s2 else ?s2"
      let ?s5 = "?s4\<lparr>Effects := Effects ?s4 @ FactoryEffects e c r\<rparr>"
      have e4: "Effects ?s4 = Effects s @ p2" "PendingRequests ?s4 = PendingRequests s"
        "CancelledRequestIds ?s4 = CancelledRequestIds s"
        using p2 by simp_all
      show ?thesis
      proof (cases "CreatedWidgetOf e c r")
        case None
        let ?s6 = "ExecuteLoadFailed r ''Failed to create widget instance'' ?s5"
        let ?s' = "?s6\<lparr>FailedRequestCount := FailedRequestCount ?s6 + 1,
                   ActiveRequests := RemoveFirstById (RequestId r) (ActiveRequests ?s6)\<rparr>"
        let ?pre = "p2 @ FactoryEffects e c r @ FailedEffects r ''Failed to create widget instance''"
        have "OnWidgetClassLoaded e r s = ProcessNextRequest e ?s'"
          using False Some None by (simp add: OnWidgetClassLoaded_def Let_def CreateAndSetupWidget_eq)
        moreover have "Effects ?s' = Effects s @ ?pre"
          using e4(1) by (simp add: Effects_ExecuteLoadFailed)
        moreover have "PendingRequests ?s' = PendingRequests s" "CancelledRequestIds ?s' = CancelledRequestIds s"
          using e4(2,3) by simp_all
        ultimately show ?thesis using p2(2)
          by (intro exI [of _ ?s'] exI [of _ ?pre]) simp
      next
        case (Some w)
        let ?s6 = "ExecuteLoadCompleted e r w ?s5"
        let ?s' = "?s6\<lparr>CompletedRequestCount := CompletedRequestCount ?s6 + 1,
                   ActiveRequests := RemoveFirstById (RequestId r) (ActiveRequests ?s6)\<rparr>"
        let ?pre = "p2 @ FactoryEffects e c r @ CompletedEffects r w"
        have "OnWidgetClassLoaded e r s = ProcessNextRequest e ?s'"
          using False \<open>SoftGet e (WidgetClass r) = Some c\<close> Some
          by (simp add: OnWidgetClassLoaded_def Let_def CreateAndSetupWidget_eq)
        moreover have "Effects ?s' = Effects s @ ?pre"
          using e4(1) by (simp add: Effects_ExecuteLoadCompleted)
        moreover have "PendingRequests ?s' = PendingRequests s" "CancelledRequestIds ?s' = CancelledRequestIds s"
          using e4(2,3) by simp_all
        ultimately show ?thesis using p2(2)
          by (intro exI [of _ ?s'] exI [of _ ?pre]) simp
      qed
    qed
  qed
qed

text \<open>
  \<open>HandsOver e s res\<close>: the call leading from \<open>s\<close> to \<open>res\<close> first reaches, without starting
  a request and without touching the pending queue, a state in which at most ids of
  active requests were added to the cancelled ids, and from there admits a prefix of the
  queue.
\<close>

definition HandsOver :: "env \<Rightarrow> manager \<Rightarrow> manager \<Rightarrow> bool" where
  "HandsOver e s res =
     (\<exists>s' pre. PendingRequests s' = PendingRequests s
        \<and> Effects s' = Effects s @ pre \<and> StartedIds pre = []
        \<and> set (CancelledRequestIds s') \<subseteq> set (CancelledRequestIds s) \<union> RequestId ` set (ActiveRequests s)
        \<and> AdmitsPrefix s' res)"

lemma CancelAllActiveStep_quiet:
  "\<exists>pre. Effects (CancelAllActiveStep e s r) = Effects s @ pre \<and> StartedIds pre = []"
proof -
  let ?pre = "(if RequestId r \<in> ActiveHandles s then [HandleCancelled (RequestId r)] else [])
      @ (if RequestId r \<in> TimeoutHandles s \<and> WorldContextValid e
         then [TimerCleared (RequestId r)] else [])"
  have "Effects (CancelAllActiveStep e s r) = Effects s @ ?pre"
    by (simp add: CancelAllActiveStep_def Let_def)
  moreover have "StartedIds ?pre = []" by simp
  ultimately show ?thesis by blast
qed

lemma foldl_CancelAllActiveStep_quiet:
  "\<exists>pre. Effects (foldl (CancelAllActiveStep e) s rs) = Effects s @ pre \<and> StartedIds pre = []"
proof (induction rs arbitrary: s)
  case Nil
  show ?case by simp
next
  case (Cons r rs)
  obtain p1 where p1: "Effects (CancelAllActiveStep e s r) = Effects s @ p1" "StartedIds p1 = []"
    using CancelAllActiveStep_quiet by blast
  obtain p2 where p2: "Effects (foldl (CancelAllActiveStep e) (CancelAllActiveStep e s r) rs)
      = Effects (CancelAllActiveStep e s r) @ p2" "StartedIds p2 = []"
    using Cons by blast
  have "Effects (foldl (CancelAllActiveStep e) s (r # rs)) = Effects s @ (p1 @ p2) \<and> StartedIds (p1 @ p2) = []"
    using p1 p2 by simp
  then show ?case by blast
qed

lemma foldl_CancelAllPendingStep_Effects [simp]:
  "Effects (foldl CancelAllPendingStep s rs) = Effects s"
  by (induction rs arbitrary: s) (simp_all add: CancelAllPendingStep_def)

lemma CancelAllLoadRequests_quiet:
  "StartedIds (NewEffects s (CancelAllLoadRequests e s)) = []"
proof -
  obtain pre where "Effects (foldl (CancelAllActiveStep e) s (ActiveRequests s)) = Effects s @ pre"
    "StartedIds pre = []"
    using foldl_CancelAllActiveStep_quiet by blast
  then show ?thesis by (simp add: CancelAllLoadRequests_def Let_def NewEffects_def)
qed

lemma FindById_in_ids: "FindById g xs \<noteq> None \<Longrightarrow> g \<in> RequestId ` set xs"
  by (induction xs) (auto split: if_splits)

lemma LoadWidgetAsync_shape:
  assumes "NoFreeSlotWhilePending s"
  shows "PendingRequests s = []
       \<or> StartedIds (NewEffects s (snd (LoadWidgetAsync e p oc ofl rp dp z pr s))) = []"
  using assms
  by (auto simp: LoadWidgetAsync_cases NoFreeSlotWhilePending_def NewEffects_def)

lemma step_shape:
  assumes "NoFreeSlotWhilePending s"
  shows "PendingRequests s = [] \<or> StartedIds (NewEffects s (step e c s)) = [] \<or> HandsOver e s (step e c s)"
proof (cases c)
  case (CallLoadWidgetAsync p oc ofl rp dp z pr)
  then show ?thesis using LoadWidgetAsync_shape [OF assms] by auto
next
  case (CallCancelLoadRequest g)
  show ?thesis
  proof (cases "GuidIsValid g \<and> FindById g (ActiveRequests s) \<noteq> None")
    case True
    obtain pre where pre: "Effects (CancelledActive e g s) = Effects s @ pre" "StartedIds pre = []"
      using CancelledActive_quiet by blast
    have "g \<in> RequestId ` set (ActiveRequests s)" using True by (simp add: FindById_in_ids)
    then have "HandsOver e s (ProcessNextRequest e (CancelledActive e g s))"
      unfolding HandsOver_def
      using pre AdmitsPrefix_ProcessNextRequest [of "CancelledActive e g s" e]
      by (intro exI [of _ "CancelledActive e g s"] exI [of _ pre]) auto
    then show ?thesis using True CallCancelLoadRequest by (simp add: CancelLoadRequest_cases)
  next
    case False
    then have "StartedIds (NewEffects s (snd (CancelLoadRequest e g s))) = []"
      by (auto simp: CancelLoadRequest_cases NewEffects_def)
    then show ?thesis using CallCancelLoadRequest by simp
  qed
next
  case CallCancelAllLoadRequests
  then show ?thesis by (simp add: CancelAllLoadRequests_quiet)
next
  case (CallSetMaxConcurrentLoads n)
  have "HandsOver e s (SetMaxConcurrentLoads_loop e (s\<lparr>MaxConcurrentLoads := max 1 n\<rparr>))"
    unfolding HandsOver_def
    using AdmitsPrefix_loop [of "s\<lparr>MaxConcurrentLoads := max 1 n\<rparr>" e]
    by (intro exI [of _ "s\<lparr>MaxConcurrentLoads := max 1 n\<rparr>"] exI [of _ "[]"]) auto
  then show ?thesis using CallSetMaxConcurrentLoads by (simp add: SetMaxConcurrentLoads_def)
next
  case (CallSetLoadTimeout t)
  then show ?thesis by (simp add: SetLoadTimeout_def NewEffects_def)
next
  case CallClearCache
  then show ?thesis by (simp add: ClearCache_def NewEffects_def)
next
  case (CallPreloadWidgetClass p pr)
  then show ?thesis
    using LoadWidgetAsync_shape [OF assms, of e p "PreloadCompleted p" "PreloadFailed p" False False 0 pr]
    by (auto simp: PreloadWidgetClass_cases NewEffects_def)
next
  case (WidgetClassLoaded r)
  obtain s' pre where s': "OnWidgetClassLoaded e r s = ProcessNextRequest e s'"
    "PendingRequests s' = PendingRequests s" "CancelledRequestIds s' = CancelledRequestIds s"
    "Effects s' = Effects s @ pre" "StartedIds pre = []"
    using OnWidgetClassLoaded_hand_over_quiet by blast
  have "HandsOver e s (ProcessNextRequest e s')"
    unfolding HandsOver_def
    using s'(2-5) AdmitsPrefix_ProcessNextRequest [of s' e]
    by (intro exI [of _ s'] exI [of _ pre]) auto
  then show ?thesis using WidgetClassLoaded s'(1) by simp
next
  case (LoadTimeout g)
  show ?thesis
  proof (cases "FindById g (ActiveRequests s)")
    case None
    then show ?thesis using LoadTimeout by (simp add: HandleLoadTimeout_def NewEffects_def)
  next
    case (Some r)
    obtain pre where pre: "Effects (TimedOut g r s) = Effects s @ pre" "StartedIds pre = []"
      using TimedOut_quiet by blast
    have "g \<in> RequestId ` set (ActiveRequests s)" using Some by (simp add: FindById_in_ids)
    then have "HandsOver e s (ProcessNextRequest e (TimedOut g r s))"
      unfolding HandsOver_def
      using pre AdmitsPrefix_ProcessNextRequest [of "TimedOut g r s" e]
      by (intro exI [of _ "TimedOut g r s"] exI [of _ pre]) auto
    then show ?thesis using LoadTimeout HandleLoadTimeout_unfold [OF Some] by simp
  qed
next
  case CleanupTimer
  then show ?thesis by (simp add: CleanupCompletedRequests_def Let_def NewEffects_def)
qed

lemma sorted_position:
  assumes "sorted_wrt request_le xs" "A \<in> set xs" "B \<in> set xs" "request_less A B"
  shows "\<exists>us vs ws. xs = us @ A # vs @ B # ws"
proof -
  from assms(3) obtain p1 p2 where p: "xs = p1 @ B # p2" by (auto dest: split_list)
  have "request_le B x" if "x \<in> set p2" for x
    using assms(1) p that by (auto simp: sorted_wrt_append)
  then have "A \<notin> set p2" using assms(4) by (auto simp: request_le_def)
  moreover have "A \<noteq> B" using assms(4) request_less_irrefl by auto
  ultimately have "A \<in> set p1" using assms(2) p by auto
  then obtain q1 q2 where "p1 = q1 @ A # q2" by (auto dest: split_list)
  with p have "xs = q1 @ A # q2 @ B # p2" by simp
  then show ?thesis by blast
qed


lemma set_RemoveFirstById_subset: "set (RemoveFirstById g xs) \<subseteq> set xs"
  by (induction xs) auto

lemma RemoveFirstById_fresh_snoc:
  "g \<notin> RequestId ` set xs \<Longrightarrow> RequestId r = g \<Longrightarrow> RemoveFirstById g (xs @ [r]) = xs"
  by (induction xs) auto

lemma ProcessNextRequest_active_ids:
  "set (ActiveRequests (ProcessNextRequest e s)) \<subseteq> set (ActiveRequests s) \<union> set (PendingRequests s)"
proof (rule ProcessNextRequest_rule [where Q = "\<lambda>s res.
     set (ActiveRequests res) \<subseteq> set (ActiveRequests s) \<union> set (PendingRequests s)"])
  fix s s' res :: manager and n rest
  let ?t = "s\<lparr>PendingRequests := rest, ActiveRequests := ActiveRequests s @ [n]\<rparr>"
  assume p: "PendingRequests s = n # rest"
    and sf: "SyncFinish e n ?t = Some s'"
    and r: "set (ActiveRequests res) \<subseteq> set (ActiveRequests s') \<union> set (PendingRequests s')"
  have "set (ActiveRequests s') \<subseteq> set (ActiveRequests s @ [n])"
    using SyncFinish_facts [OF sf] set_RemoveFirstById_subset [of "RequestId n" "ActiveRequests s @ [n]"]
    by simp
  moreover have "PendingRequests s' = rest" using SyncFinish_facts [OF sf] by simp
  ultimately show "set (ActiveRequests res) \<subseteq> set (ActiveRequests s) \<union> set (PendingRequests s)"
    using r p by auto
qed auto

section \<open>Sample runs\<close>

text \<open>
  An environment in which the world and the player controller exist, every widget can be
  created, every load can be started, no soft pointer is resolved yet, and the request
  constructor gets id 7 at time 1.
\<close>

definition e0 :: env where
  "e0 = \<lparr> WorldContextValid = True, HasUINavPC = True,
           GoToWidget = (\<lambda>c rp dp z. Some (Widget c 0)),
           RequestAsyncLoadValid = (\<lambda>p. True), Resolve = (\<lambda>p. None),
           NewGuid = 7, PlatformSeconds = 1 \<rparr>"

text \<open>
  A request as \<^verbatim>\<open>LoadWidgetAsync\<close> builds it in \<open>e0\<close>, and the manager after that submission:
  the request is the one active request, its load in flight.
\<close>

definition r7 :: request where
  "r7 = \<lparr> RequestId = 7, WidgetClass = ''W'', bRemoveParent = False, bDestroyParent = False,
           ZOrder = 0, OnLoadCompleted = UserCompleted 1, OnLoadFailed = UserFailed 2,
           RequestTime = 1, bCancelled = False, Priority = 5 \<rparr>"

definition s7 :: manager where
  "s7 = step e0 (CallLoadWidgetAsync ''W'' (UserCompleted 1) (UserFailed 2) False False 0 5)
          NewManager"

text \<open>The same manager after request 7 was cancelled.\<close>

definition s7c :: manager where
  "s7c = step e0 (CallCancelLoadRequest 7) s7"

text \<open>
  A run of the manager: the limit is set to 1; a request for \<^verbatim>\<open>"V"\<close> (id 5) is submitted and
  its load completes, which puts the class of \<^verbatim>\<open>"V"\<close> into the cache (\<open>sC\<close>); then a request
  for \<^verbatim>\<open>"W"\<close> (id 7) is submitted and stays in flight (\<open>sD\<close>).
\<close>

definition e5 :: env where
  "e5 = e0\<lparr>NewGuid := 5\<rparr>"

definition eV :: env where
  "eV = e0\<lparr>Resolve := (\<lambda>p. if p = ''V'' then Some 1 else None)\<rparr>"

definition e8 :: env where
  "e8 = e0\<lparr>NewGuid := 8, PlatformSeconds := 2\<rparr>"

definition r5 :: request where
  "r5 = \<lparr> RequestId = 5, WidgetClass = ''V'', bRemoveParent = False, bDestroyParent = False,
           ZOrder = 0, OnLoadCompleted = UserCompleted 1, OnLoadFailed = UserFailed 2,
           RequestTime = 1, bCancelled = False, Priority = 0 \<rparr>"

definition sA :: manager where
  "sA = step e0 (CallSetMaxConcurrentLoads 1) NewManager"

definition sB :: manager where
  "sB = step e5 (CallLoadWidgetAsync ''V'' (UserCompleted 1) (UserFailed 2) False False 0 0) sA"

definition sC :: manager where
  "sC = step eV (WidgetClassLoaded r5) sB"

definition sD :: manager where
  "sD = step e0 (CallLoadWidgetAsync ''W'' (UserCompleted 1) (UserFailed 2) False False 0 5) sC"

text \<open>
  Another run: two requests are submitted and stay in flight, then the limit is set to 1.
\<close>

definition sX :: manager where
  "sX = step e0 (CallSetMaxConcurrentLoads 1)
          (step e8 (CallLoadWidgetAsync ''U'' (UserCompleted 3) (UserFailed 4) False False 0 0)
             (step e0 (CallLoadWidgetAsync ''W'' (UserCompleted 1) (UserFailed 2) False False 0 5)
                NewManager))"

lemma reachable_sD: "reachable sD"
  unfolding sD_def sC_def sB_def sA_def by (intro reachable_step reachable_init)

lemma reachable_unlowered_sD: "reachable_unlowered sD"
  unfolding sD_def sC_def sB_def sA_def
  by (intro unlowered_step unlowered_init) (simp_all add: LowersBelowActive_def NewManager_def)

text \<open>
  The run \<open>sD\<close> continued: two more requests for the cached \<^verbatim>\<open>"V"\<close> are submitted while the
  slot is taken, id 8 at time 2 with priority \<open>pr\<close>, then id 9 at time 3 with priority 5.
\<close>

definition e9 :: env where
  "e9 = e0\<lparr>NewGuid := 9, PlatformSeconds := 3\<rparr>"

definition r8 :: "int \<Rightarrow> request" where
  "r8 pr = \<lparr> RequestId = 8, WidgetClass = ''V'', bRemoveParent = False, bDestroyParent = False,
           ZOrder = 0, OnLoadCompleted = UserCompleted 3, OnLoadFailed = UserFailed 4,
           RequestTime = 2, bCancelled = False, Priority = pr \<rparr>"

definition r9 :: request where
  "r9 = \<lparr> RequestId = 9, WidgetClass = ''V'', bRemoveParent = False, bDestroyParent = False,
           ZOrder = 0, OnLoadCompleted = UserCompleted 3, OnLoadFailed = UserFailed 4,
           RequestTime = 3, bCancelled = False, Priority = 5 \<rparr>"

definition sF :: "int \<Rightarrow> manager" where
  "sF pr = step e9 (CallLoadWidgetAsync ''V'' (UserCompleted 3) (UserFailed 4) False False 0 5)
            (step e8 (CallLoadWidgetAsync ''V'' (UserCompleted 3) (UserFailed 4) False False 0 pr) sD)"

lemma reachable_sF: "reachable (sF pr)"
  unfolding sF_def by (intro reachable_step reachable_sD)

text \<open>
  The narrowing to \<^verbatim>\<open>float\<close> at some values: small integers are kept; \<open>1/3\<close> becomes
  \<open>11184811 / 2^25\<close>; above \<open>2^24\<close> odd integers are lost (ties go to the even significand);
  around \<open>100000\<close> the values \<open>100000 + 1/1024\<close> and \<open>100000 + 1/512\<close> both become \<open>100000\<close>,
  while \<open>100000 + 1/128\<close> is a \<^verbatim>\<open>float\<close>; the smallest subnormal is \<open>2^(-149)\<close>, half of it
  becomes 0; the largest \<^verbatim>\<open>double\<close>s become infinity.
\<close>

lemma ToFloat_samples:
  "ToFloat 0 = 0" "ToFloat 1 = 1" "ToFloat 3 = 3" "ToFloat (- 5 / 2) = - 5 / 2"
  "ToFloat (1 / 3) = 11184811 / 2 ^ 25"
  "ToFloat 16777217 = 16777216" "ToFloat 16777219 = 16777220"
  "ToFloat (100000 + 1 / 1024) = 100000" "ToFloat (100000 + 1 / 512) = 100000"
  "ToFloat (100000 + 1 / 128) = 100000 + 1 / 128"
  "ToFloat (1 / 2 ^ 149) = 1 / 2 ^ 149" "ToFloat (1 / 2 ^ 150) = 0"
  "ToFloat (2 ^ 128 - 2 ^ 104) = 2 ^ 128 - 2 ^ 104" "ToFloat (2 ^ 128 - 1) = 2 ^ 128"
  "ToFloat (2 ^ 200) = 2 ^ 128"
  by code_simp+

text \<open>
  A run around the clock value \<open>100000\<close> seconds, where neighbouring \<^verbatim>\<open>float\<close>s are \<open>1/128\<close>
  apart. The limit is set to 1 and a request (id 7) is submitted and stays in flight. Two
  more requests of priority 0 are submitted about a millisecond after one another: id 8 at
  \<open>100000 + 1/1024\<close>, then id 9 at \<open>100000 + 1/512\<close>. Both store the request time \<open>100000\<close>.
\<close>

definition eT7 :: env where
  "eT7 = e0\<lparr>PlatformSeconds := 100000\<rparr>"

definition eT8 :: env where
  "eT8 = e0\<lparr>NewGuid := 8, PlatformSeconds := 100000 + 1 / 1024\<rparr>"

definition eT9 :: env where
  "eT9 = e0\<lparr>NewGuid := 9, PlatformSeconds := 100000 + 1 / 512\<rparr>"

definition rT8 :: request where
  "rT8 = \<lparr> RequestId = 8, WidgetClass = ''W'', bRemoveParent = False, bDestroyParent = False,
            ZOrder = 0, OnLoadCompleted = UserCompleted 3, OnLoadFailed = UserFailed 4,
            RequestTime = 100000, bCancelled = False, Priority = 0 \<rparr>"

definition rT9 :: request where
  "rT9 = \<lparr> RequestId = 9, WidgetClass = ''W'', bRemoveParent = False, bDestroyParent = False,
            ZOrder = 0, OnLoadCompleted = UserCompleted 5, OnLoadFailed = UserFailed 6,
            RequestTime = 100000, bCancelled = False, Priority = 0 \<rparr>"

definition sT :: manager where
  "sT = step eT9 (CallLoadWidgetAsync ''W'' (UserCompleted 5) (UserFailed 6) False False 0 0)
          (step eT8 (CallLoadWidgetAsync ''W'' (UserCompleted 3) (UserFailed 4) False False 0 0)
             (step eT7 (CallLoadWidgetAsync ''W'' (UserCompleted 1) (UserFailed 2) False False 0 5)
                (step e0 (CallSetMaxConcurrentLoads 1) NewManager)))"

lemma reachable_sT: "reachable sT"
  unfolding sT_def by (intro reachable_step reachable_init)

text \<open>
  A run that fills the set of cancelled ids. Request 7 is submitted and cancelled (\<open>s7c\<close>);
  then, \<open>n\<close> times, one more request is submitted and cancelled, with the ids \<open>8\<close> to
  \<open>7 + n\<close>. After 100 rounds 101 ids are recorded and the cleanup timer runs (\<open>sClean\<close>).
  In \<open>eW\<close> the soft pointer \<^verbatim>\<open>"W"\<close> resolves to the class 2.
\<close>

fun CancelMore :: "nat \<Rightarrow> manager \<Rightarrow> manager" where
  "CancelMore 0 s = s"
| "CancelMore (Suc n) s =
     step e0 (CallCancelLoadRequest (8 + n))
       (step (e0\<lparr>NewGuid := 8 + n\<rparr>)
          (CallLoadWidgetAsync ''W'' (UserCompleted 1) (UserFailed 2) False False 0 5)
          (CancelMore n s))"

definition sClean :: manager where
  "sClean = step e0 CleanupTimer (CancelMore 100 s7c)"

definition eW :: env where
  "eW = e0\<lparr>Resolve := (\<lambda>p. if p = ''W'' then Some 2 else None)\<rparr>"

text \<open>
  Between the rounds nothing is active or pending, no handle or timer is stored and the
  class of \<^verbatim>\<open>"W"\<close> is not cached.
\<close>

definition Idle :: "manager \<Rightarrow> bool" where
  "Idle s = (ActiveRequests s = [] \<and> PendingRequests s = [] \<and> ActiveHandles s = {}
     \<and> TimeoutHandles s = {} \<and> WidgetClassCache s ''W'' = None \<and> MaxConcurrentLoads s = 3)"

lemma reachable_CancelMore: "reachable s \<Longrightarrow> reachable (CancelMore n s)"
  by (induction n) (simp_all only: CancelMore.simps reachable_step)

lemma reachable_s7c: "reachable s7c"
  unfolding s7c_def s7_def by (intro reachable_step reachable_init)

lemma reachable_sClean: "reachable sClean"
  unfolding sClean_def by (intro reachable_step reachable_CancelMore reachable_s7c)

lemma Idle_round:
  assumes "Idle s" "g \<noteq> 0" "g \<notin> set (CancelledRequestIds s)"
  shows "Idle (step e0 (CallCancelLoadRequest g)
           (step (e0\<lparr>NewGuid := g\<rparr>)
              (CallLoadWidgetAsync ''W'' oc ofl False False 0 5) s))
       \<and> CancelledRequestIds (step e0 (CallCancelLoadRequest g)
           (step (e0\<lparr>NewGuid := g\<rparr>)
              (CallLoadWidgetAsync ''W'' oc ofl False False 0 5) s)) = CancelledRequestIds s @ [g]"
  using assms
  by (simp add: Idle_def LoadWidgetAsync_def IsNull_def StartLoadingWidget_unfold SyncFinish_def
      AsyncStart_def GetFromWidgetClassCache_def e0_def Let_def CancelLoadRequest_def
      GuidIsValid_def CancelHandleOf_def ClearTimeoutOf_def SetAdd_def ProcessNextRequest.simps)

lemma Idle_s7c: "Idle s7c" "CancelledRequestIds s7c = [7]"
  unfolding Idle_def by code_simp+

lemma CancelMore_s7c:
  "Idle (CancelMore n s7c) \<and> CancelledRequestIds (CancelMore n s7c) = [7..<8 + n]"
proof (induction n)
  case 0
  show ?case using Idle_s7c by (simp add: upt_rec)
next
  case (Suc n)
  have "8 + n \<noteq> 0" "8 + n \<notin> set (CancelledRequestIds (CancelMore n s7c))"
    using Suc by simp_all
  from Idle_round [OF _ this] Suc
  have "Idle (CancelMore (Suc n) s7c)"
    "CancelledRequestIds (CancelMore (Suc n) s7c) = [7..<8 + n] @ [8 + n]"
    by simp_all
  moreover have "[7..<Suc (8 + n)] = [7..<8 + n] @ [8 + n]"
    by (rule upt_Suc_append) simp
  ultimately show ?case by (simp only: add_Suc_right)
qed

lemma Idle_sClean: "Idle sClean" "CancelledRequestIds sClean = [58..<108]"
  using CancelMore_s7c [of 100]
  by (simp_all add: sClean_def CleanupCompletedRequests_def MaxCancelledIds_def Idle_def Let_def)


section \<open>Rejected submissions\<close>

text \<open>
  C6. \<^verbatim>\<open>LoadWidgetAsync\<close> with a null soft class pointer returns the invalid id \<^verbatim>\<open>FGuid()\<close> and
  leaves the manager as it was: active requests, pending queue, cache and every counter,
  \<^verbatim>\<open>TotalRequestCount\<close> included, are unchanged. The only thing that happens is the
  synchronous call of the failure delegate with the message
  \<^verbatim>\<open>"Invalid widget class provided"\<close>; when the caller passed no (an unbound) delegate there
  is nothing to call and the state is exactly the old one.
\<close>

theorem C6_null_reference_rejected:
  assumes "IsNull p"
  shows "LoadWidgetAsync e p oc ofl rp dp z pr s =
           (0, s\<lparr>Effects := Effects s @
                 (if ofl = UnboundFailed then []
                  else [SubmitFailedExecuted ofl ''Invalid widget class provided''])\<rparr>)
         \<and> \<not> GuidIsValid (fst (LoadWidgetAsync e p oc ofl rp dp z pr s))"
  using assms by (cases ofl) (simp_all add: LoadWidgetAsync_def GuidIsValid_def)

theorem C6_null_reference_rejected_witness:
  "IsNull [] \<and> LoadWidgetAsync e0 [] (UserCompleted 1) (UserFailed 2) False False 0 5 NewManager =
     (0, NewManager\<lparr>Effects := [SubmitFailedExecuted (UserFailed 2) ''Invalid widget class provided'']\<rparr>)"
  using C6_null_reference_rejected [of "[]" e0 "UserCompleted 1" "UserFailed 2" False False 0 5 NewManager]
  by (simp add: IsNull_def NewManager_def)

section \<open>Cleanup of the cancelled ids\<close>

lemma length_filter_not_in_take:
  assumes "distinct xs" "distinct ys" "set ys = set xs" "k \<le> length xs"
  shows "length (filter (\<lambda>g. g \<notin> set (take k ys)) xs) = length xs - k"
proof -
  have len: "length ys = length xs"
    using assms by (metis distinct_card)
  have sub: "set (take k ys) \<subseteq> set xs" using assms(3) by (metis set_take_subset)
  have ck: "card (set (take k ys)) = k"
    using assms(2,4) len by (simp add: distinct_card)
  have "length (filter (\<lambda>g. g \<notin> set (take k ys)) xs) = card ({g. g \<notin> set (take k ys)} \<inter> set xs)"
    using assms(1) by (rule distinct_length_filter)
  also have "{g. g \<notin> set (take k ys)} \<inter> set xs = set xs - set (take k ys)" by auto
  also have "card (set xs - set (take k ys)) = card (set xs) - card (set (take k ys))"
    using sub by (simp add: card_Diff_subset)
  also have "\<dots> = length xs - k" using assms(1) ck by (simp add: distinct_card)
  finally show ?thesis .
qed

text \<open>
  C8, as stated, fails. With 101 recorded ids, the oldest being 101 and the ids 1 to 100
  recorded after it, the cleanup leaves 50 ids, not 100, and it keeps the oldest id 101
  while it evicts the ids 1 to 51: the array is sorted by the text of the ids, not by age.
\<close>

theorem C8_counterexample:
  "CancelledRequestIds
      (CleanupCompletedRequests (NewManager\<lparr>CancelledRequestIds := 101 # [1..<101]\<rparr>))
     = 101 # [52..<101]
   \<and> length (101 # [52..<101::nat]) = 50"
  by code_simp

text \<open>
  C8, amended. When the cleanup timer runs and more than 100 ids are recorded, exactly 50
  of them (half the cap) are kept, all taken from the recorded ones; with at most 100 ids
  the cleanup changes nothing. The set of ids has no duplicates (\<^verbatim>\<open>TSet\<close>). Which ids are
  kept is left open here.
\<close>

theorem C8_cleanup_prunes_to_half_cap:
  assumes "distinct (CancelledRequestIds s)"
  shows "(MaxCancelledIds < length (CancelledRequestIds s) \<longrightarrow>
            length (CancelledRequestIds (CleanupCompletedRequests s)) = MaxCancelledIds div 2
            \<and> set (CancelledRequestIds (CleanupCompletedRequests s)) \<subseteq> set (CancelledRequestIds s))
       \<and> (length (CancelledRequestIds s) \<le> MaxCancelledIds \<longrightarrow> CleanupCompletedRequests s = s)
       \<and> MaxCancelledIds = 100"
proof -
  let ?ids = "CancelledRequestIds s"
  have "length (filter (\<lambda>g. g \<notin> set (take (length ?ids - 50) (sort ?ids))) ?ids)
          = length ?ids - (length ?ids - 50)"
    using assms by (intro length_filter_not_in_take) simp_all
  then show ?thesis
    by (auto simp: CleanupCompletedRequests_def MaxCancelledIds_def Let_def)
qed

theorem C8_cleanup_prunes_to_half_cap_witness:
  "distinct (101 # [1..<101::nat]) \<and> MaxCancelledIds < length (101 # [1..<101::nat])
   \<and> length (CancelledRequestIds
        (CleanupCompletedRequests (NewManager\<lparr>CancelledRequestIds := 101 # [1..<101]\<rparr>))) = 50
   \<and> distinct (CancelledRequestIds s7c) \<and> length (CancelledRequestIds s7c) \<le> MaxCancelledIds
   \<and> CleanupCompletedRequests s7c = s7c"
proof -
  have a: "distinct (CancelledRequestIds (NewManager\<lparr>CancelledRequestIds := 101 # [1..<101]\<rparr>))"
    "MaxCancelledIds < length (CancelledRequestIds (NewManager\<lparr>CancelledRequestIds := 101 # [1..<101]\<rparr>))"
    "distinct (101 # [1..<101::nat])" "MaxCancelledIds < length (101 # [1..<101::nat])"
    "MaxCancelledIds div 2 = 50"
    by (simp_all add: MaxCancelledIds_def)
  have b: "distinct (CancelledRequestIds s7c)" "length (CancelledRequestIds s7c) \<le> MaxCancelledIds"
    by code_simp+
  from C8_cleanup_prunes_to_half_cap [OF a(1)] a(2,5)
  have 1: "length (CancelledRequestIds
        (CleanupCompletedRequests (NewManager\<lparr>CancelledRequestIds := 101 # [1..<101]\<rparr>))) = 50"
    by metis
  from C8_cleanup_prunes_to_half_cap [OF b(1)] b(2)
  have 2: "CleanupCompletedRequests s7c = s7c" by blast
  from a(3,4) 1 b 2 show ?thesis by blast
qed

section \<open>Timeout\<close>



text \<open>
  C10. After the timeout of an active request \<open>g\<close>, the id is in \<^verbatim>\<open>CancelledRequestIds\<close>, so
  \<^verbatim>\<open>GetRequestStatus\<close> answers "cancelled" for it, although the event was counted as a
  failure and not as a cancellation. The flag \<^verbatim>\<open>bCancelled\<close> is set on the entry of the
  active list (second conjunct) just before that entry is removed.
\<close>

theorem C10_timeout_reported_cancelled:
  assumes "FindById g (ActiveRequests s) = Some r"
  shows "g \<in> set (CancelledRequestIds (HandleLoadTimeout e g s))
       \<and> FindById g (MarkCancelledById g (ActiveRequests s)) = Some (r\<lparr>bCancelled := True\<rparr>)
       \<and> GetRequestStatus (HandleLoadTimeout e g s) g = (True, False, False, True)
       \<and> FailedRequestCount s + 1 \<le> FailedRequestCount (HandleLoadTimeout e g s)
       \<and> CancelledRequestCount (HandleLoadTimeout e g s) = CancelledRequestCount s"
proof -
  have u: "HandleLoadTimeout e g s = ProcessNextRequest e (TimedOut g r s)"
    by (rule HandleLoadTimeout_unfold [OF assms])
  have k: "CancelledRequestIds (HandleLoadTimeout e g s) = SetAdd g (CancelledRequestIds s)"
      "CancelledRequestCount (HandleLoadTimeout e g s) = CancelledRequestCount s"
    using ProcessNextRequest_keeps [of e "TimedOut g r s"] u by simp_all
  have f: "FailedRequestCount s + 1 \<le> FailedRequestCount (HandleLoadTimeout e g s)"
    using ProcessNextRequest_counters_mono [of "TimedOut g r s" e] u by simp
  show ?thesis
    using k f FindById_MarkCancelledById [OF assms] by (simp add: GetRequestStatus_def)
qed

theorem C10_timeout_reported_cancelled_witness:
  "FindById 7 (ActiveRequests s7) = Some r7
   \<and> GetRequestStatus (HandleLoadTimeout e0 7 s7) 7 = (True, False, False, True)
   \<and> 1 \<le> FailedRequestCount (HandleLoadTimeout e0 7 s7)
   \<and> CancelledRequestCount (HandleLoadTimeout e0 7 s7) = 0"
proof -
  have f: "FindById 7 (ActiveRequests s7) = Some r7"
    by code_simp
  have v: "FailedRequestCount s7 = 0" "CancelledRequestCount s7 = 0"
    by code_simp+
  from C10_timeout_reported_cancelled [OF f, of e0] f v show ?thesis by auto
qed

section \<open>Completion of a cancelled request\<close>

text \<open>
  C5, as stated, fails: an id recorded as cancelled does not stay recorded. The cleanup
  timer prunes \<^verbatim>\<open>CancelledRequestIds\<close>, and \<^verbatim>\<open>OnWidgetClassLoaded\<close> looks the id up at the
  moment the completion arrives. In the run \<open>sClean\<close> request 7 was cancelled while its load
  was in flight, which recorded its id (\<open>s7c\<close>); 100 more ids were recorded and the cleanup
  removed 51 ids, 7 among them. The streamable delegate holds the copy \<open>r7\<close> of the request
  captured when the load was started, with \<^verbatim>\<open>bCancelled\<close> unset. When the completion is
  delivered then, the widget is created and \<^verbatim>\<open>OnLoadCompleted\<close> of request 7 is called with
  it.
\<close>

theorem C5_counterexample:
  "reachable sClean
   \<and> ActiveRequests s7 = [r7] \<and> RequestId r7 = 7 \<and> \<not> bCancelled r7
   \<and> 7 \<in> set (CancelledRequestIds s7c)
   \<and> 7 \<notin> set (CancelledRequestIds sClean)
   \<and> NewEffects sClean (step eW (WidgetClassLoaded r7) sClean)
       = [GoToWidgetCalled 2 False False 0,
          LoadCompletedExecuted 7 (UserCompleted 1) (Widget 2 0)]"
proof -
  have a: "ActiveRequests s7 = [r7]" "RequestId r7 = 7" "\<not> bCancelled r7"
    "7 \<in> set (CancelledRequestIds s7c)"
    by code_simp+
  have b: "7 \<notin> set (CancelledRequestIds sClean)"
    by (simp add: Idle_sClean(2))
  have c: "NewEffects sClean (step eW (WidgetClassLoaded r7) sClean)
       = [GoToWidgetCalled 2 False False 0,
          LoadCompletedExecuted 7 (UserCompleted 1) (Widget 2 0)]"
    using Idle_sClean
    by (simp add: Idle_def OnWidgetClassLoaded_def ClearTimeoutOf_def r7_def eW_def e0_def
        SoftGet_def IsNull_def IsWidgetClassCached_def IsValid_def AddToWidgetClassCache_def
        CreateAndSetupWidget_def ExecuteLoadCompleted_def ProcessNextRequest.simps
        NewEffects_def Let_def)
  from reachable_sClean a b c show ?thesis by blast
qed

text \<open>
  C5, amended. Let the loader's completion arrive for a request whose id is recorded in
  \<^verbatim>\<open>CancelledRequestIds\<close> at that moment (it was recorded and not pruned since), or whose
  captured copy has \<^verbatim>\<open>bCancelled\<close> set (ids being unique: no pending request has the same
  id). Then \<^verbatim>\<open>OnWidgetClassLoaded\<close> only clears the handle and the timer, removes the request
  from the active list and calls \<^verbatim>\<open>ProcessNextRequest\<close>: no counter of completions or
  failures moves, nothing is cached, and no effect of the whole call is a delegate call
  for that request.
\<close>

theorem C5_cancelled_completion_discarded:
  assumes "RequestId r \<in> set (CancelledRequestIds s)
           \<or> (bCancelled r \<and> RequestId r \<notin> RequestId ` set (PendingRequests s))"
  shows "OnWidgetClassLoaded e r s = ProcessNextRequest e (Discarded e r s)
       \<and> ActiveRequests (Discarded e r s) = RemoveFirstById (RequestId r) (ActiveRequests s)
       \<and> CompletedRequestCount (Discarded e r s) = CompletedRequestCount s
       \<and> FailedRequestCount (Discarded e r s) = FailedRequestCount s
       \<and> WidgetClassCache (Discarded e r s) = WidgetClassCache s
       \<and> filter (IsCallbackOf (RequestId r)) (NewEffects s (OnWidgetClassLoaded e r s)) = []"
proof -
  let ?d = "Discarded e r s"
  have u: "OnWidgetClassLoaded e r s = ProcessNextRequest e ?d"
    using assms by (auto simp: OnWidgetClassLoaded_def Discarded_def Let_def)
  have fl: "ActiveRequests ?d = RemoveFirstById (RequestId r) (ActiveRequests s)"
    "CompletedRequestCount ?d = CompletedRequestCount s"
    "FailedRequestCount ?d = FailedRequestCount s"
    "WidgetClassCache ?d = WidgetClassCache s"
    "PendingRequests ?d = PendingRequests s"
    "CancelledRequestIds ?d = CancelledRequestIds s"
    by (simp_all add: Discarded_def Let_def)
  obtain pre where pre: "Effects ?d = Effects s @ pre" "filter (IsCallbackOf (RequestId r)) pre = []"
    using Discarded_effects by blast
  obtain new where new: "Effects (ProcessNextRequest e ?d) = Effects ?d @ new" "AdmittedOnly ?d new"
    using ProcessNextRequest_effects by blast
  have "filter (IsCallbackOf (RequestId r)) new = []"
    by (rule AdmittedOnly_no_callback [OF new(2)]) (use assms fl in auto)
  moreover have "NewEffects s (OnWidgetClassLoaded e r s) = pre @ new"
    using u pre(1) new(1) by (simp add: NewEffects_def)
  ultimately have "filter (IsCallbackOf (RequestId r)) (NewEffects s (OnWidgetClassLoaded e r s)) = []"
    using pre(2) by simp
  with u fl show ?thesis by simp
qed

theorem C5_cancelled_completion_discarded_witness:
  "RequestId r7 \<in> set (CancelledRequestIds s7c)
   \<and> filter (IsCallbackOf 7) (NewEffects s7c (OnWidgetClassLoaded e0 r7 s7c)) = []
   \<and> ActiveRequests (Discarded e0 r7 s7c) = []
   \<and> bCancelled (r7\<lparr>bCancelled := True\<rparr>)
   \<and> RequestId (r7\<lparr>bCancelled := True\<rparr>) \<notin> RequestId ` set (PendingRequests s7)
   \<and> filter (IsCallbackOf 7)
        (NewEffects s7 (OnWidgetClassLoaded e0 (r7\<lparr>bCancelled := True\<rparr>) s7)) = []"
proof -
  have a: "RequestId r7 \<in> set (CancelledRequestIds s7c)" "RequestId r7 = 7"
     "RemoveFirstById 7 (ActiveRequests s7c) = []"
    by code_simp+
  have b: "bCancelled (r7\<lparr>bCancelled := True\<rparr>)"
    "RequestId (r7\<lparr>bCancelled := True\<rparr>) \<notin> RequestId ` set (PendingRequests s7)"
    "RequestId (r7\<lparr>bCancelled := True\<rparr>) = 7"
    by code_simp+
  from C5_cancelled_completion_discarded [of r7 s7c e0]
    C5_cancelled_completion_discarded [of "r7\<lparr>bCancelled := True\<rparr>" s7 e0] a b
  show ?thesis by auto
qed

section \<open>Submission with a cached class\<close>

text \<open>
  C1, as stated, fails: \<^verbatim>\<open>LoadWidgetAsync\<close> does not look into the cache, only
  \<^verbatim>\<open>StartLoadingWidget\<close> does. In the state \<open>sD\<close> the class of \<^verbatim>\<open>"V"\<close> is cached and the one slot
  is taken; a submission for \<^verbatim>\<open>"V"\<close> is put into the pending queue and nothing is called.
\<close>

theorem C1_counterexample:
  "WidgetClassCache sD ''V'' = Some 1
   \<and> map RequestId (PendingRequests
        (snd (LoadWidgetAsync e8 ''V'' (UserCompleted 3) (UserFailed 4) False False 0 0 sD))) = [8]
   \<and> NewEffects sD (snd (LoadWidgetAsync e8 ''V'' (UserCompleted 3) (UserFailed 4) False False 0 0 sD)) = []"
  by code_simp

text \<open>
  C1, amended. A submission whose class is in the cache and that finds a free slot
  (fewer active requests than \<^verbatim>\<open>MaxConcurrentLoads\<close>) completes inside the call: the returned
  id is the new request's, no load is requested for it, \<^verbatim>\<open>GoToWidget\<close> is called with the
  cached class and the placement options (when the world and the player controller
  exist), exactly one delegate call for the request happens before the call returns
  (\<^verbatim>\<open>OnLoadCompleted\<close> with the widget, or \<^verbatim>\<open>OnLoadFailed\<close> when no widget could be created; none
  if that delegate is unbound), the request is neither in the pending queue nor in the
  active list afterwards, and it is counted as submitted and as completed or failed. The
  new id is taken to be different from the ids of the pending and the active requests.
\<close>

theorem C1_cache_hit_with_free_slot:
  assumes "\<not> IsNull p"
    and "WidgetClassCache s p = Some c"
    and "int (length (ActiveRequests s)) < MaxConcurrentLoads s"
    and "NewGuid e \<notin> RequestId ` set (PendingRequests s)"
    and "NewGuid e \<notin> RequestId ` set (ActiveRequests s)"
  shows "fst (LoadWidgetAsync e p oc ofl rp dp z pr s) = NewGuid e
       \<and> NewGuid e \<notin> RequestId ` set (PendingRequests (snd (LoadWidgetAsync e p oc ofl rp dp z pr s)))
       \<and> NewGuid e \<notin> RequestId ` set (ActiveRequests (snd (LoadWidgetAsync e p oc ofl rp dp z pr s)))
       \<and> AsyncLoadRequested (NewGuid e) p \<notin> set (NewEffects s (snd (LoadWidgetAsync e p oc ofl rp dp z pr s)))
       \<and> (WorldContextValid e \<and> HasUINavPC e \<longrightarrow>
            GoToWidgetCalled c rp dp z \<in> set (NewEffects s (snd (LoadWidgetAsync e p oc ofl rp dp z pr s))))
       \<and> filter (IsCallbackOf (NewGuid e)) (NewEffects s (snd (LoadWidgetAsync e p oc ofl rp dp z pr s))) =
           (case CreatedWidgetOf e c (NewRequestOf e p oc ofl rp dp z pr) of
              Some w \<Rightarrow> if oc = UnboundCompleted then [] else [LoadCompletedExecuted (NewGuid e) oc w]
            | None \<Rightarrow> if ofl = UnboundFailed then []
                      else [LoadFailedExecuted (NewGuid e) ofl ''Failed to create widget from cached class''])
       \<and> TotalRequestCount (snd (LoadWidgetAsync e p oc ofl rp dp z pr s)) = TotalRequestCount s + 1
       \<and> CompletedRequestCount s + FailedRequestCount s + 1
           \<le> CompletedRequestCount (snd (LoadWidgetAsync e p oc ofl rp dp z pr s))
             + FailedRequestCount (snd (LoadWidgetAsync e p oc ofl rp dp z pr s))"
proof -
  let ?r = "NewRequestOf e p oc ofl rp dp z pr"
  let ?s1 = "s\<lparr>TotalRequestCount := TotalRequestCount s + 1, ActiveRequests := ActiveRequests s @ [?r]\<rparr>"
  let ?d = "CacheHitDone e c ?r ?s1"
  let ?res = "snd (LoadWidgetAsync e p oc ofl rp dp z pr s)"
  have rf: "RequestId ?r = NewGuid e" "WidgetClass ?r = p" "OnLoadCompleted ?r = oc" "OnLoadFailed ?r = ofl"
    "bRemoveParent ?r = rp" "bDestroyParent ?r = dp" "ZOrder ?r = z"
    by (simp_all add: NewRequestOf_def)
  have "WidgetClassCache ?s1 (WidgetClass ?r) = Some c" using assms(2) rf by simp
  then have slw: "StartLoadingWidget e ?r ?s1 = ProcessNextRequest e ?d"
    by (rule StartLoadingWidget_cache_hit)
  have lwa: "LoadWidgetAsync e p oc ofl rp dp z pr s = (NewGuid e, ProcessNextRequest e ?d)"
    using LoadWidgetAsync_free_slot [OF assms(1,3)] slw by simp
  obtain new where new: "Effects (ProcessNextRequest e ?d) = Effects ?d @ new" "AdmittedOnly ?d new"
    using ProcessNextRequest_effects by blast
  let ?mid = "[LoadStarted (NewGuid e)] @ FactoryEffects e c ?r @
       (case CreatedWidgetOf e c ?r of
          Some w \<Rightarrow> CompletedEffects ?r w
        | None \<Rightarrow> FailedEffects ?r ''Failed to create widget from cached class'')"
  have ne: "NewEffects s ?res = ?mid @ new"
    using lwa new(1) rf by (simp add: NewEffects_def)
  have fresh: "NewGuid e \<notin> RequestId ` set (PendingRequests ?d)" using assms(4) by simp
  have nocb: "filter (IsCallbackOf (NewGuid e)) new = []"
    by (rule AdmittedOnly_no_callback [OF new(2)]) (use fresh in simp)
  have noload: "AsyncLoadRequested (NewGuid e) p \<notin> set new"
    by (rule AdmittedOnly_not_for [OF new(2) fresh]) simp
  have c1: "fst (LoadWidgetAsync e p oc ofl rp dp z pr s) = NewGuid e" using lwa by simp
  obtain k where "PendingRequests (ProcessNextRequest e ?d) = drop k (PendingRequests ?d)"
    using PendingRequests_suffix by blast
  then have "set (PendingRequests ?res) \<subseteq> set (PendingRequests s)"
    using lwa by (simp add: set_drop_subset)
  then have c2: "NewGuid e \<notin> RequestId ` set (PendingRequests ?res)" using assms(4) by blast
  have c3: "AsyncLoadRequested (NewGuid e) p \<notin> set (NewEffects s ?res)"
    using noload ne
    by (auto simp: FactoryEffects_def CompletedEffects_def FailedEffects_def
        split: option.splits completed_delegate.splits if_splits)
  have c4: "WorldContextValid e \<and> HasUINavPC e \<longrightarrow> GoToWidgetCalled c rp dp z \<in> set (NewEffects s ?res)"
    using ne rf by (simp add: FactoryEffects_def)
  have cbC: "filter (IsCallbackOf (NewGuid e)) (CompletedEffects ?r w) =
      (if oc = UnboundCompleted then [] else [LoadCompletedExecuted (NewGuid e) oc w])" for w
    using callbacks_CompletedEffects [of ?r w] by (simp only: rf)
  have cbF: "filter (IsCallbackOf (NewGuid e)) (FailedEffects ?r m) =
      (if ofl = UnboundFailed then [] else [LoadFailedExecuted (NewGuid e) ofl m])" for m
    using callbacks_FailedEffects [of ?r m] by (simp only: rf)
  have nofac: "filter (IsCallbackOf (NewGuid e)) (FactoryEffects e c ?r) = []"
    by (simp add: FactoryEffects_def)
  have c5: "filter (IsCallbackOf (NewGuid e)) (NewEffects s ?res) =
           (case CreatedWidgetOf e c ?r of
              Some w \<Rightarrow> if oc = UnboundCompleted then [] else [LoadCompletedExecuted (NewGuid e) oc w]
            | None \<Rightarrow> if ofl = UnboundFailed then []
                      else [LoadFailedExecuted (NewGuid e) ofl ''Failed to create widget from cached class''])"
  proof (cases "CreatedWidgetOf e c ?r")
    case None
    then show ?thesis using nocb nofac cbF by (simp add: ne)
  next
    case (Some w)
    then show ?thesis using nocb nofac cbC by (simp add: ne)
  qed
  have c6: "TotalRequestCount ?res = TotalRequestCount s + 1"
    using lwa ProcessNextRequest_keeps [of e ?d] by simp
  have c7: "CompletedRequestCount s + FailedRequestCount s + 1
           \<le> CompletedRequestCount ?res + FailedRequestCount ?res"
    using lwa ProcessNextRequest_counters_mono [of ?d e] by (simp split: if_splits)
  have "ActiveRequests ?d = ActiveRequests s"
    using assms(5) rf(1) by (simp add: RemoveFirstById_fresh_snoc)
  then have "set (ActiveRequests ?res) \<subseteq> set (ActiveRequests s) \<union> set (PendingRequests s)"
    using lwa ProcessNextRequest_active_ids [of e ?d] by simp
  then have c8: "NewGuid e \<notin> RequestId ` set (ActiveRequests ?res)"
    using assms(4,5) by blast
  from c1 c2 c3 c4 c5 c6 c7 c8 show ?thesis by blast
qed

theorem C1_cache_hit_with_free_slot_witness:
  "\<not> IsNull ''V'' \<and> WidgetClassCache sC ''V'' = Some 1
   \<and> int (length (ActiveRequests sC)) < MaxConcurrentLoads sC
   \<and> NewGuid e8 \<notin> RequestId ` set (PendingRequests sC)
   \<and> NewGuid e8 \<notin> RequestId ` set (ActiveRequests sC)
   \<and> WorldContextValid e8 \<and> HasUINavPC e8
   \<and> GoToWidgetCalled 1 False False 0 \<in> set (NewEffects sC
        (snd (LoadWidgetAsync e8 ''V'' (UserCompleted 3) (UserFailed 4) False False 0 0 sC)))
   \<and> filter (IsCallbackOf 8) (NewEffects sC
        (snd (LoadWidgetAsync e8 ''V'' (UserCompleted 3) (UserFailed 4) False False 0 0 sC)))
      = [LoadCompletedExecuted 8 (UserCompleted 3) (Widget 1 0)]"
proof -
  have h: "\<not> IsNull ''V''" "WidgetClassCache sC ''V'' = Some 1"
    "int (length (ActiveRequests sC)) < MaxConcurrentLoads sC"
    "NewGuid e8 \<notin> RequestId ` set (PendingRequests sC)"
    "NewGuid e8 \<notin> RequestId ` set (ActiveRequests sC)"
    by code_simp+
  have v: "WorldContextValid e8" "HasUINavPC e8" "NewGuid e8 = 8"
    "CreatedWidgetOf e8 1 (NewRequestOf e8 ''V'' (UserCompleted 3) (UserFailed 4) False False 0 0)
       = Some (Widget 1 0)"
    by code_simp+
  from C1_cache_hit_with_free_slot [OF h, of "UserCompleted 3" "UserFailed 4" False False 0 0] h v
  show ?thesis by simp
qed

section \<open>Preloading\<close>

text \<open>
  C9, as stated, fails: \<^verbatim>\<open>PreloadWidgetClass\<close> also returns \<^verbatim>\<open>FGuid()\<close>, and submits nothing,
  when \<^verbatim>\<open>WidgetClass.IsValid()\<close> is false. That is so for the null pointer and for a pointer
  whose class is not loaded yet, although neither is cached.
\<close>

theorem C9_counterexample:
  "PreloadWidgetClass e0 [] 0 NewManager = (0, NewManager)
   \<and> \<not> IsWidgetClassCached e0 NewManager []
   \<and> PreloadWidgetClass e0 ''W'' 0 NewManager = (0, NewManager)
   \<and> \<not> IsWidgetClassCached e0 NewManager ''W''"
  by (simp add: PreloadWidgetClass_def IsWidgetClassCached_def IsValid_def SoftGet_def IsNull_def e0_def)

text \<open>
  C9, amended. \<^verbatim>\<open>PreloadWidgetClass\<close> returns \<^verbatim>\<open>FGuid()\<close> and changes nothing when the pointer
  is null or its class is already cached. For a pointer that resolves to a live class and
  is not cached it does what \<^verbatim>\<open>LoadWidgetAsync\<close> does for a request with the two preload
  delegates, no placement flags and z-order 0: it returns the new id, counts the
  submission, and starts the request if a slot is free, or else sorts it into the pending
  queue. The completion delegate of that request puts the widget's class into the cache
  and removes the widget from its parent; the failure delegate changes nothing in the
  manager. (What happens for a pointer that is not null but whose class is not loaded is
  left open here.)
\<close>

theorem C9_preload_submits:
  "(IsNull p \<or> IsWidgetClassCached e s p \<longrightarrow> PreloadWidgetClass e p pr s = (0, s))
   \<and> (IsValid e p \<and> \<not> IsWidgetClassCached e s p \<longrightarrow>
        PreloadWidgetClass e p pr s
          = LoadWidgetAsync e p (PreloadCompleted p) (PreloadFailed p) False False 0 pr s
        \<and> fst (PreloadWidgetClass e p pr s) = NewGuid e
        \<and> TotalRequestCount (snd (PreloadWidgetClass e p pr s)) = TotalRequestCount s + 1
        \<and> (\<not> int (length (ActiveRequests s)) < MaxConcurrentLoads s \<longrightarrow>
             ActiveRequests (snd (PreloadWidgetClass e p pr s)) = ActiveRequests s
             \<and> PendingRequests (snd (PreloadWidgetClass e p pr s)) =
                 Sort (PendingRequests s @
                   [\<lparr> RequestId = NewGuid e, WidgetClass = p, bRemoveParent = False,
                      bDestroyParent = False, ZOrder = 0, OnLoadCompleted = PreloadCompleted p,
                      OnLoadFailed = PreloadFailed p, RequestTime = ToFloat (PlatformSeconds e),
                      bCancelled = False, Priority = pr \<rparr>])))
   \<and> (OnLoadCompleted r = PreloadCompleted p \<longrightarrow>
        WidgetClassCache (ExecuteLoadCompleted e r w t) =
          (if IsValid e p then (WidgetClassCache t)(p \<mapsto> GetClass w) else WidgetClassCache t)
        \<and> Effects (ExecuteLoadCompleted e r w t) =
            Effects t @ [LoadCompletedExecuted (RequestId r) (PreloadCompleted p) w,
                         RemoveFromParentCalled w])
   \<and> (OnLoadFailed r = PreloadFailed p \<longrightarrow>
        ExecuteLoadFailed r m t =
          t\<lparr>Effects := Effects t @ [LoadFailedExecuted (RequestId r) (PreloadFailed p) m]\<rparr>)"
proof -
  have a: "IsNull p \<or> IsWidgetClassCached e s p \<longrightarrow> PreloadWidgetClass e p pr s = (0, s)"
    by (auto simp: PreloadWidgetClass_def IsValid_def SoftGet_def)
  have b: "PreloadWidgetClass e p pr s
          = LoadWidgetAsync e p (PreloadCompleted p) (PreloadFailed p) False False 0 pr s"
    if "IsValid e p" "\<not> IsWidgetClassCached e s p"
    using that IsValid_not_IsNull [OF that(1)]
    by (simp add: PreloadWidgetClass_def LoadWidgetAsync_def)
  have c: "fst (PreloadWidgetClass e p pr s) = NewGuid e
        \<and> TotalRequestCount (snd (PreloadWidgetClass e p pr s)) = TotalRequestCount s + 1"
    if "IsValid e p" "\<not> IsWidgetClassCached e s p"
    using that StartLoadingWidget_keeps
    by (simp add: PreloadWidgetClass_def Let_def)
  have d: "ActiveRequests (snd (PreloadWidgetClass e p pr s)) = ActiveRequests s
             \<and> PendingRequests (snd (PreloadWidgetClass e p pr s)) =
                 Sort (PendingRequests s @
                   [\<lparr> RequestId = NewGuid e, WidgetClass = p, bRemoveParent = False,
                      bDestroyParent = False, ZOrder = 0, OnLoadCompleted = PreloadCompleted p,
                      OnLoadFailed = PreloadFailed p, RequestTime = ToFloat (PlatformSeconds e),
                      bCancelled = False, Priority = pr \<rparr>])"
    if "IsValid e p" "\<not> IsWidgetClassCached e s p" "\<not> int (length (ActiveRequests s)) < MaxConcurrentLoads s"
    using that by (simp add: PreloadWidgetClass_def Let_def)
  have f: "WidgetClassCache (ExecuteLoadCompleted e r w t) =
          (if IsValid e p then (WidgetClassCache t)(p \<mapsto> GetClass w) else WidgetClassCache t)
        \<and> Effects (ExecuteLoadCompleted e r w t) =
            Effects t @ [LoadCompletedExecuted (RequestId r) (PreloadCompleted p) w,
                         RemoveFromParentCalled w]"
    if "OnLoadCompleted r = PreloadCompleted p"
    using that by (simp add: ExecuteLoadCompleted_def AddToWidgetClassCache_def Let_def)
  have g: "ExecuteLoadFailed r m t =
          t\<lparr>Effects := Effects t @ [LoadFailedExecuted (RequestId r) (PreloadFailed p) m]\<rparr>"
    if "OnLoadFailed r = PreloadFailed p"
    using that by (simp add: ExecuteLoadFailed_def)
  from a b c d f g show ?thesis by blast
qed

theorem C9_preload_submits_witness:
  "IsNull [] \<and> PreloadWidgetClass e0 [] 0 NewManager = (0, NewManager)
   \<and> IsValid eV ''V'' \<and> \<not> IsWidgetClassCached eV s7c ''V''
   \<and> fst (PreloadWidgetClass eV ''V'' 0 s7c) = 7
   \<and> TotalRequestCount (snd (PreloadWidgetClass eV ''V'' 0 s7c)) = 2
   \<and> \<not> int (length (ActiveRequests sD)) < MaxConcurrentLoads sD
   \<and> \<not> IsWidgetClassCached eV (ClearCache sD) ''V''
   \<and> ActiveRequests (snd (PreloadWidgetClass eV ''V'' 0 (ClearCache sD))) = ActiveRequests sD
   \<and> OnLoadCompleted (r7\<lparr>OnLoadCompleted := PreloadCompleted ''V'', OnLoadFailed := PreloadFailed ''V''\<rparr>)
        = PreloadCompleted ''V''
   \<and> WidgetClassCache (ExecuteLoadCompleted eV
         (r7\<lparr>OnLoadCompleted := PreloadCompleted ''V'', OnLoadFailed := PreloadFailed ''V''\<rparr>)
         (Widget 1 0) s7) ''V'' = Some 1
   \<and> OnLoadFailed (r7\<lparr>OnLoadCompleted := PreloadCompleted ''V'', OnLoadFailed := PreloadFailed ''V''\<rparr>)
        = PreloadFailed ''V''
   \<and> Effects (ExecuteLoadFailed (r7\<lparr>OnLoadCompleted := PreloadCompleted ''V'', OnLoadFailed := PreloadFailed ''V''\<rparr>)
        ''x'' s7) = Effects s7 @ [LoadFailedExecuted 7 (PreloadFailed ''V'') ''x'']"
proof -
  let ?r = "r7\<lparr>OnLoadCompleted := PreloadCompleted ''V'', OnLoadFailed := PreloadFailed ''V''\<rparr>"
  have a1: "IsNull []" by code_simp
  have a2: "IsValid eV ''V''" by code_simp
  have a3: "\<not> IsWidgetClassCached eV s7c ''V''" by code_simp
  have a4: "\<not> IsWidgetClassCached eV (ClearCache sD) ''V''" by code_simp
  have a5: "NewGuid eV = 7" "TotalRequestCount s7c = 1" by code_simp+
  have a6: "\<not> int (length (ActiveRequests (ClearCache sD))) < MaxConcurrentLoads (ClearCache sD)"
    "\<not> int (length (ActiveRequests sD)) < MaxConcurrentLoads sD"
    "ActiveRequests (ClearCache sD) = ActiveRequests sD" by code_simp+
  have a7: "OnLoadCompleted ?r = PreloadCompleted ''V''" "OnLoadFailed ?r = PreloadFailed ''V''"
    "RequestId ?r = 7" by (simp_all add: r7_def)
  note A = C9_preload_submits [where p = "[]" and e = e0 and s = NewManager and pr = 0 and r = ?r
        and w = "Widget 1 0" and t = s7 and m = "''x''"]
  note B = C9_preload_submits [where p = "''V''" and e = eV and s = s7c and pr = 0 and r = ?r
        and w = "Widget 1 0" and t = s7 and m = "''x''"]
  note C = C9_preload_submits [where p = "''V''" and e = eV and s = "ClearCache sD" and pr = 0 and r = ?r
        and w = "Widget 1 0" and t = s7 and m = "''x''"]
  have 1: "PreloadWidgetClass e0 [] 0 NewManager = (0, NewManager)" using A a1 by blast
  have 2: "fst (PreloadWidgetClass eV ''V'' 0 s7c) = NewGuid eV
      \<and> TotalRequestCount (snd (PreloadWidgetClass eV ''V'' 0 s7c)) = TotalRequestCount s7c + 1"
    using B a2 a3 by blast
  have 3: "ActiveRequests (snd (PreloadWidgetClass eV ''V'' 0 (ClearCache sD))) = ActiveRequests (ClearCache sD)"
    using C a2 a4 a6(1) by blast
  have 4: "WidgetClassCache (ExecuteLoadCompleted eV ?r (Widget 1 0) s7) =
          (if IsValid eV ''V'' then (WidgetClassCache s7)(''V'' \<mapsto> GetClass (Widget 1 0)) else WidgetClassCache s7)"
    using B a7(1) by blast
  have 5: "ExecuteLoadFailed ?r ''x'' s7 =
          s7\<lparr>Effects := Effects s7 @ [LoadFailedExecuted (RequestId ?r) (PreloadFailed ''V'') ''x'']\<rparr>"
    using B a7(2) by blast
  have c4: "WidgetClassCache (ExecuteLoadCompleted eV ?r (Widget 1 0) s7) ''V'' = Some 1"
    by (simp only: 4 a2 if_True fun_upd_same widget.sel)
  have c5: "Effects (ExecuteLoadFailed ?r ''x'' s7) = Effects s7 @ [LoadFailedExecuted 7 (PreloadFailed ''V'') ''x'']"
    by (simp add: 5 a7(3))
  from a1 1 a2 a3 2 a5 a6 a4 3 a7 c4 c5 show ?thesis by simp
qed

section \<open>The concurrency limit\<close>

text \<open>
  C2, as stated, fails: \<^verbatim>\<open>SetMaxConcurrentLoads\<close> only admits more requests when the limit
  grows and never stops a running load, so after two requests were started and the limit
  is set to 1 there are two active requests.
\<close>

theorem C2_counterexample:
  "reachable sX \<and> MaxConcurrentLoads sX = 1 \<and> length (ActiveRequests sX) = 2"
proof -
  have "reachable sX" unfolding sX_def by (intro reachable_step reachable_init)
  moreover have "MaxConcurrentLoads sX = 1 \<and> length (ActiveRequests sX) = 2" by code_simp
  ultimately show ?thesis by simp
qed

text \<open>
  C2, amended. In every state reached without lowering the limit below the number of
  active requests, the active list holds at most \<^verbatim>\<open>MaxConcurrentLoads\<close> requests. With no free
  slot, \<^verbatim>\<open>LoadWidgetAsync\<close> leaves the active list alone and \<^verbatim>\<open>ProcessNextRequest\<close> does nothing:
  both add to the active list only behind the test \<^verbatim>\<open>ActiveRequests.Num() < MaxConcurrentLoads\<close>.
  (Every call other than such a lowering keeps the bound, \<open>WithinLimit_step\<close>.)
\<close>

theorem C2_active_within_limit:
  assumes "reachable_unlowered s"
  shows "int (length (ActiveRequests s)) \<le> MaxConcurrentLoads s
       \<and> (\<not> int (length (ActiveRequests s)) < MaxConcurrentLoads s \<longrightarrow>
            ActiveRequests (snd (LoadWidgetAsync e p oc ofl rp dp z pr s)) = ActiveRequests s
            \<and> ProcessNextRequest e s = s)"
  using reachable_unlowered_WithinLimit [OF assms]
  by (auto simp: WithinLimit_def LoadWidgetAsync_cases ProcessNextRequest_idle)

theorem C2_active_within_limit_witness:
  "reachable_unlowered sD \<and> \<not> int (length (ActiveRequests sD)) < MaxConcurrentLoads sD
   \<and> int (length (ActiveRequests sD)) \<le> MaxConcurrentLoads sD
   \<and> ProcessNextRequest e0 sD = sD"
proof -
  have a: "\<not> int (length (ActiveRequests sD)) < MaxConcurrentLoads sD" by code_simp
  from C2_active_within_limit [OF reachable_unlowered_sD, of e0] a reachable_unlowered_sD
  show ?thesis by blast
qed

section \<open>No slot is lost\<close>

text \<open>
  C7. Every path that takes a request out of the active list calls \<^verbatim>\<open>ProcessNextRequest\<close> on
  the state without that request: the loader's completion whatever its outcome (class
  loaded and widget built, class not loaded, widget not built, request cancelled), the
  timeout, the cancellation of an active request, and the request that ends at once in
  \<^verbatim>\<open>StartLoadingWidget\<close> because its class is cached. As a consequence, in every reachable
  state and after each of these calls, no slot is free while a request is pending.
\<close>

theorem C7_freed_slot_is_refilled:
  assumes "reachable s"
  shows "(\<exists>s'. OnWidgetClassLoaded e r s = ProcessNextRequest e s'
            \<and> ActiveRequests s' = RemoveFirstById (RequestId r) (ActiveRequests s)
            \<and> PendingRequests s' = PendingRequests s)
       \<and> (FindById g (ActiveRequests s) = Some q \<longrightarrow>
            HandleLoadTimeout e g s = ProcessNextRequest e (TimedOut g q s)
            \<and> ActiveRequests (TimedOut g q s) = RemoveFirstById g (ActiveRequests s))
       \<and> (GuidIsValid g \<and> FindById g (ActiveRequests s) = Some q \<longrightarrow>
            snd (CancelLoadRequest e g s) = ProcessNextRequest e (CancelledActive e g s)
            \<and> ActiveRequests (CancelledActive e g s) = RemoveFirstById g (ActiveRequests s))
       \<and> (WidgetClassCache t (WidgetClass r) = Some k \<longrightarrow>
            StartLoadingWidget e r t = ProcessNextRequest e (CacheHitDone e k r t)
            \<and> ActiveRequests (CacheHitDone e k r t) = RemoveFirstById (RequestId r) (ActiveRequests t))
       \<and> NoFreeSlotWhilePending (OnWidgetClassLoaded e r s)
       \<and> NoFreeSlotWhilePending (HandleLoadTimeout e g s)
       \<and> NoFreeSlotWhilePending (snd (CancelLoadRequest e g s))
       \<and> NoFreeSlotWhilePending (snd (LoadWidgetAsync e p oc ofl rp dp z pr s))
       \<and> NoFreeSlotWhilePending s"
proof -
  have n: "NoFreeSlotWhilePending s" by (rule reachable_NoFreeSlot [OF assms])
  have a: "\<exists>s'. OnWidgetClassLoaded e r s = ProcessNextRequest e s'
            \<and> ActiveRequests s' = RemoveFirstById (RequestId r) (ActiveRequests s)
            \<and> PendingRequests s' = PendingRequests s"
    using OnWidgetClassLoaded_hand_over [of e r s] by blast
  have b: "FindById g (ActiveRequests s) = Some q \<longrightarrow>
            HandleLoadTimeout e g s = ProcessNextRequest e (TimedOut g q s)
            \<and> ActiveRequests (TimedOut g q s) = RemoveFirstById g (ActiveRequests s)"
    by (simp add: HandleLoadTimeout_unfold)
  have c: "GuidIsValid g \<and> FindById g (ActiveRequests s) = Some q \<longrightarrow>
            snd (CancelLoadRequest e g s) = ProcessNextRequest e (CancelledActive e g s)
            \<and> ActiveRequests (CancelledActive e g s) = RemoveFirstById g (ActiveRequests s)"
    by (simp add: CancelLoadRequest_cases)
  have d: "WidgetClassCache t (WidgetClass r) = Some k \<longrightarrow>
            StartLoadingWidget e r t = ProcessNextRequest e (CacheHitDone e k r t)
            \<and> ActiveRequests (CacheHitDone e k r t) = RemoveFirstById (RequestId r) (ActiveRequests t)"
    by (simp add: StartLoadingWidget_cache_hit)
  have f: "NoFreeSlotWhilePending (OnWidgetClassLoaded e r s)"
    using NoFreeSlot_step [OF n, of e "WidgetClassLoaded r"] by simp
  have h: "NoFreeSlotWhilePending (HandleLoadTimeout e g s)"
    using NoFreeSlot_step [OF n, of e "LoadTimeout g"] by simp
  have i: "NoFreeSlotWhilePending (snd (CancelLoadRequest e g s))"
    using NoFreeSlot_step [OF n, of e "CallCancelLoadRequest g"] by simp
  have j: "NoFreeSlotWhilePending (snd (LoadWidgetAsync e p oc ofl rp dp z pr s))"
    by (rule NoFreeSlot_LoadWidgetAsync [OF n])
  from a b c d f h i j n show ?thesis by blast
qed

theorem C7_freed_slot_is_refilled_witness:
  "reachable sD \<and> FindById 7 (ActiveRequests sD) = Some r7 \<and> GuidIsValid 7
   \<and> HandleLoadTimeout e0 7 sD = ProcessNextRequest e0 (TimedOut 7 r7 sD)
   \<and> snd (CancelLoadRequest e0 7 sD) = ProcessNextRequest e0 (CancelledActive e0 7 sD)
   \<and> WidgetClassCache sD (WidgetClass r5) = Some 1
   \<and> StartLoadingWidget e0 r5 sD = ProcessNextRequest e0 (CacheHitDone e0 1 r5 sD)
   \<and> NoFreeSlotWhilePending (HandleLoadTimeout e0 7 sD)"
proof -
  have a: "FindById 7 (ActiveRequests sD) = Some r7" "GuidIsValid 7"
    "WidgetClassCache sD (WidgetClass r5) = Some 1" by code_simp+
  from C7_freed_slot_is_refilled [OF reachable_sD, where e = e0 and g = 7 and q = r7 and r = r5
      and t = sD and k = 1] a reachable_sD
  show ?thesis by blast
qed

section \<open>Priority order of admission\<close>

text \<open>
  What the order of the stored requests guarantees. Let \<open>A\<close> and \<open>B\<close> both be in the pending
  queue of a reachable state, \<open>A\<close> with the strictly higher priority, or with the same
  priority and the strictly smaller stored request time, and \<open>A\<close> not cancelled (ids being
  unique: \<open>A\<close>'s id is not the id of an active request, and the pending ids are distinct).
  Then \<open>A\<close> stands before \<open>B\<close> in the queue, and whatever happens next (any call, completion
  or timer): if \<open>B\<close> is started in that step, \<open>A\<close> was started before it in the same step.
  So \<open>B\<close> is never admitted while \<open>A\<close> still waits.
\<close>

lemma stored_order_admitted_first:
  assumes "reachable s"
    and "A \<in> set (PendingRequests s)" and "B \<in> set (PendingRequests s)"
    and "Priority B < Priority A \<or> (Priority A = Priority B \<and> RequestTime A < RequestTime B)"
    and "distinct (map RequestId (PendingRequests s))"
    and "RequestId A \<notin> RequestId ` set (ActiveRequests s)"
    and "\<not> bCancelled A" and "RequestId A \<notin> set (CancelledRequestIds s)"
  shows "(\<exists>us vs ws. PendingRequests s = us @ A # vs @ B # ws)
       \<and> (LoadStarted (RequestId B) \<in> set (NewEffects s (step e c s)) \<longrightarrow>
            (\<exists>xs ys zs. NewEffects s (step e c s)
               = xs @ LoadStarted (RequestId A) # ys @ LoadStarted (RequestId B) # zs))"
proof -
  have less: "request_less A B" using assms(4) by (auto simp: request_less_def)
  have sorted: "PendingSorted s" by (rule reachable_PendingSorted [OF assms(1)])
  have pos: "\<exists>us vs ws. PendingRequests s = us @ A # vs @ B # ws"
    using sorted assms(2,3) less unfolding PendingSorted_def by (rule sorted_position)
  have order: "\<exists>xs ys zs. NewEffects s (step e c s)
               = xs @ LoadStarted (RequestId A) # ys @ LoadStarted (RequestId B) # zs"
    if st: "LoadStarted (RequestId B) \<in> set (NewEffects s (step e c s))"
  proof -
    have "PendingRequests s \<noteq> []" using assms(2) by auto
    moreover have "StartedIds (NewEffects s (step e c s)) \<noteq> []"
      using st by (auto simp: StartedIds_mem)
    ultimately have "HandsOver e s (step e c s)"
      using step_shape [OF reachable_NoFreeSlot [OF assms(1)], of e c] by blast
    then obtain s' pre where s': "PendingRequests s' = PendingRequests s"
      "Effects s' = Effects s @ pre" "StartedIds pre = []"
      "set (CancelledRequestIds s') \<subseteq> set (CancelledRequestIds s) \<union> RequestId ` set (ActiveRequests s)"
      "AdmitsPrefix s' (step e c s)"
      unfolding HandsOver_def by blast
    from s'(5) obtain new where new: "Effects (step e c s) = Effects s' @ new"
      unfolding AdmitsPrefix_def by blast
    have ne: "NewEffects s (step e c s) = pre @ NewEffects s' (step e c s)"
      using new s'(2) by (simp add: NewEffects_def)
    have "LoadStarted (RequestId B) \<notin> set pre" using s'(3) by (simp add: StartedIds_mem)
    then have st': "LoadStarted (RequestId B) \<in> set (NewEffects s' (step e c s))"
      using st ne by auto
    have alive: "Alive s' A" using assms(6,7,8) s'(4) by (auto simp: Alive_def)
    have "\<exists>xs ys zs. NewEffects s' (step e c s)
               = xs @ LoadStarted (RequestId A) # ys @ LoadStarted (RequestId B) # zs"
      using s'(5) _ _ _ less _ alive st'
      by (rule AdmitsPrefix_order) (use sorted assms(2,3,5) s'(1) in \<open>simp_all add: PendingSorted_def\<close>)
    then obtain xs ys zs where "NewEffects s' (step e c s)
               = xs @ LoadStarted (RequestId A) # ys @ LoadStarted (RequestId B) # zs" by blast
    then have "NewEffects s (step e c s)
               = (pre @ xs) @ LoadStarted (RequestId A) # ys @ LoadStarted (RequestId B) # zs"
      using ne by simp
    then show ?thesis by blast
  qed
  from pos order show ?thesis by blast
qed

text \<open>
  The lemma at work in the runs \<open>sF 1\<close> (request 9 has the higher priority) and \<open>sF 5\<close>
  (equal priorities, request 8 has the smaller stored time), when request 7 times out.
\<close>

lemma stored_order_admitted_first_sample:
  "reachable (sF 1) \<and> r9 \<in> set (PendingRequests (sF 1)) \<and> r8 1 \<in> set (PendingRequests (sF 1))
   \<and> Priority (r8 1) < Priority r9
   \<and> distinct (map RequestId (PendingRequests (sF 1)))
   \<and> RequestId r9 \<notin> RequestId ` set (ActiveRequests (sF 1))
   \<and> \<not> bCancelled r9 \<and> RequestId r9 \<notin> set (CancelledRequestIds (sF 1))
   \<and> LoadStarted (RequestId (r8 1)) \<in> set (NewEffects (sF 1) (step e0 (LoadTimeout 7) (sF 1)))
   \<and> (\<exists>xs ys zs. NewEffects (sF 1) (step e0 (LoadTimeout 7) (sF 1))
         = xs @ LoadStarted (RequestId r9) # ys @ LoadStarted (RequestId (r8 1)) # zs)
   \<and> reachable (sF 5) \<and> r8 5 \<in> set (PendingRequests (sF 5)) \<and> r9 \<in> set (PendingRequests (sF 5))
   \<and> Priority (r8 5) = Priority r9 \<and> RequestTime (r8 5) < RequestTime r9
   \<and> distinct (map RequestId (PendingRequests (sF 5)))
   \<and> RequestId (r8 5) \<notin> RequestId ` set (ActiveRequests (sF 5))
   \<and> \<not> bCancelled (r8 5) \<and> RequestId (r8 5) \<notin> set (CancelledRequestIds (sF 5))
   \<and> LoadStarted (RequestId r9) \<in> set (NewEffects (sF 5) (step e0 (LoadTimeout 7) (sF 5)))
   \<and> (\<exists>xs ys zs. NewEffects (sF 5) (step e0 (LoadTimeout 7) (sF 5))
         = xs @ LoadStarted (RequestId (r8 5)) # ys @ LoadStarted (RequestId r9) # zs)"
proof -
  have a: "r9 \<in> set (PendingRequests (sF 1))" "r8 1 \<in> set (PendingRequests (sF 1))"
    "Priority (r8 1) < Priority r9"
    "distinct (map RequestId (PendingRequests (sF 1)))"
    "RequestId r9 \<notin> RequestId ` set (ActiveRequests (sF 1))"
    "\<not> bCancelled r9" "RequestId r9 \<notin> set (CancelledRequestIds (sF 1))"
    "LoadStarted (RequestId (r8 1)) \<in> set (NewEffects (sF 1) (step e0 (LoadTimeout 7) (sF 1)))"
    by code_simp+
  have b: "r8 5 \<in> set (PendingRequests (sF 5))" "r9 \<in> set (PendingRequests (sF 5))"
    "Priority (r8 5) = Priority r9" "RequestTime (r8 5) < RequestTime r9"
    "distinct (map RequestId (PendingRequests (sF 5)))"
    "RequestId (r8 5) \<notin> RequestId ` set (ActiveRequests (sF 5))"
    "\<not> bCancelled (r8 5)" "RequestId (r8 5) \<notin> set (CancelledRequestIds (sF 5))"
    "LoadStarted (RequestId r9) \<in> set (NewEffects (sF 5) (step e0 (LoadTimeout 7) (sF 5)))"
    by code_simp+
  have 1: "\<exists>xs ys zs. NewEffects (sF 1) (step e0 (LoadTimeout 7) (sF 1))
         = xs @ LoadStarted (RequestId r9) # ys @ LoadStarted (RequestId (r8 1)) # zs"
    using stored_order_admitted_first [OF reachable_sF a(1,2) _ a(4,5,6,7), of e0 "LoadTimeout 7"]
      a(3,8) by blast
  have 2: "\<exists>xs ys zs. NewEffects (sF 5) (step e0 (LoadTimeout 7) (sF 5))
         = xs @ LoadStarted (RequestId (r8 5)) # ys @ LoadStarted (RequestId r9) # zs"
    using stored_order_admitted_first [OF reachable_sF b(1,2) _ b(5,6,7,8), of e0 "LoadTimeout 7"]
      b(3,4,9) by blast
  from a b 1 2 reachable_sF show ?thesis by blast
qed

text \<open>
  C4. The first half holds: a pending request of strictly higher priority is admitted
  first (the lemma above). The second half fails. The comment in \<^verbatim>\<open>operator<\<close> says that of
  two requests of equal priority the one requested earlier comes first, but the request
  time is stored as a \<^verbatim>\<open>float\<close>, and two submissions whose clock values differ by less than
  the spacing of the \<^verbatim>\<open>float\<close>s there store the same time. \<^verbatim>\<open>operator<\<close> then orders neither
  before the other, and the order in which they are admitted is whatever the sort leaves.
  In the run \<open>sT\<close> request 8 was submitted strictly before request 9 with the same priority;
  both are pending, request 9 in front. When the slot is freed (request 7 is cancelled),
  request 9 is started and request 8 still waits.
\<close>

theorem C4_equal_priority_later_started_first:
  "reachable sT
   \<and> PlatformSeconds eT8 < PlatformSeconds eT9
   \<and> ToFloat (PlatformSeconds eT8) = 100000 \<and> ToFloat (PlatformSeconds eT9) = 100000
   \<and> PendingRequests sT = [rT9, rT8]
   \<and> Priority rT8 = Priority rT9 \<and> RequestTime rT8 = RequestTime rT9
   \<and> \<not> request_less rT8 rT9 \<and> \<not> request_less rT9 rT8
   \<and> NewEffects sT (step e0 (CallCancelLoadRequest 7) sT)
        = [HandleCancelled 7, TimerCleared 7, LoadStarted 9, TimerSet 9, AsyncLoadRequested 9 ''W'']
   \<and> map RequestId (ActiveRequests (step e0 (CallCancelLoadRequest 7) sT)) = [9]
   \<and> PendingRequests (step e0 (CallCancelLoadRequest 7) sT) = [rT8]"
proof -
  have a: "PlatformSeconds eT8 < PlatformSeconds eT9"
    "ToFloat (PlatformSeconds eT8) = 100000" "ToFloat (PlatformSeconds eT9) = 100000"
    "PendingRequests sT = [rT9, rT8]"
    by code_simp+
  have b: "Priority rT8 = Priority rT9" "RequestTime rT8 = RequestTime rT9"
    "\<not> request_less rT8 rT9" "\<not> request_less rT9 rT8"
    by (simp_all add: rT8_def rT9_def request_less_def)
  have c: "NewEffects sT (step e0 (CallCancelLoadRequest 7) sT)
        = [HandleCancelled 7, TimerCleared 7, LoadStarted 9, TimerSet 9, AsyncLoadRequested 9 ''W'']"
    "map RequestId (ActiveRequests (step e0 (CallCancelLoadRequest 7) sT)) = [9]"
    "PendingRequests (step e0 (CallCancelLoadRequest 7) sT) = [rT8]"
    by code_simp+
  from reachable_sT a b c show ?thesis by blast
qed

end
